theory Spec2Isabelle
  imports Main
begin

section \<open>Strings and character classes\<close>

text \<open>
  A JavaScript string is a sequence of UTF-16 code units; a code unit is represented by
  its numeric value. \<open>of_ascii\<close> writes an ASCII literal as such a sequence.
\<close>

type_synonym jsstring = "nat list"

definition of_ascii :: "string \<Rightarrow> jsstring" where
  "of_ascii s = map of_char s"

abbreviation BSL :: nat where "BSL \<equiv> 92"
abbreviation LBR :: nat where "LBR \<equiv> 123"
abbreviation RBR :: nat where "RBR \<equiv> 125"
abbreviation LF :: nat where "LF \<equiv> 10"
abbreviation SP :: nat where "SP \<equiv> 32"
abbreviation QUOTE :: nat where "QUOTE \<equiv> 39"
abbreviation MINUS :: nat where "MINUS \<equiv> 45"

text \<open>The class \<open>[a-z]\<close> under the flag \<open>i\<close>: the ASCII letters of both cases.\<close>

definition is_alpha :: "nat \<Rightarrow> bool" where
  "is_alpha c = ((65 \<le> c \<and> c \<le> 90) \<or> (97 \<le> c \<and> c \<le> 122))"

text \<open>The class \<open>\d\<close>.\<close>

definition is_digit :: "nat \<Rightarrow> bool" where
  "is_digit c = (48 \<le> c \<and> c \<le> 57)"

text \<open>The class \<open>\w\<close>, which decides the word boundary \<open>\b\<close>.\<close>

definition is_word :: "nat \<Rightarrow> bool" where
  "is_word c = (is_alpha c \<or> is_digit c \<or> c = 95)"

text \<open>
  The class \<open>\s\<close>, which is also what \<open>trim\<close> removes: the white space and line
  terminator code units of ECMAScript.
\<close>

definition is_space :: "nat \<Rightarrow> bool" where
  "is_space c = ((9 \<le> c \<and> c \<le> 13) \<or> c = 32 \<or> c = 160 \<or> c = 5760 \<or>
     (8192 \<le> c \<and> c \<le> 8202) \<or> c = 8232 \<or> c = 8233 \<or> c = 8239 \<or> c = 8287 \<or>
     c = 12288 \<or> c = 65279)"

text \<open>The class \<open>[0-9a-f]\<close> under the flag \<open>i\<close>, and the value \<open>parseInt\<close> gives a digit.\<close>

definition is_hex :: "nat \<Rightarrow> bool" where
  "is_hex c = (is_digit c \<or> (65 \<le> c \<and> c \<le> 70) \<or> (97 \<le> c \<and> c \<le> 102))"

definition hex_value :: "nat \<Rightarrow> nat" where
  "hex_value c = (if is_digit c then c - 48 else if 97 \<le> c then c - 87 else c - 55)"

section \<open>Global replacement\<close>

text \<open>
  A matcher stands for one regular expression: applied to the rest of the subject from
  some index on, it says whether the expression matches at that index and, if so, gives the
  replacement text and the number of code units matched. Every expression of the program
  matches at least one code unit, so a match of \<open>n\<close> code units at \<open>c # cs\<close> resumes
  the scan at \<open>drop (n - 1) cs\<close>. \<open>replaceAll\<close> is \<open>String.prototype.replace\<close> with a
  global expression: leftmost matches, left to right, without overlap.
\<close>

type_synonym matcher = "jsstring \<Rightarrow> (jsstring \<times> nat) option"

fun replaceAll :: "matcher \<Rightarrow> jsstring \<Rightarrow> jsstring" where
  "replaceAll m [] = []"
| "replaceAll m (c # cs) =
     (case m (c # cs) of
        None \<Rightarrow> c # replaceAll m cs
      | Some (r, n) \<Rightarrow> r @ replaceAll m (drop (n - 1) cs))"

text \<open>A single code unit of a class, replaced by a fixed text: \<open>/[{}]/g\<close>, \<open>/\n/g\<close>.\<close>

definition m_class :: "(nat \<Rightarrow> bool) \<Rightarrow> jsstring \<Rightarrow> matcher" where
  "m_class P r s = (case s of [] \<Rightarrow> None | c # _ \<Rightarrow> if P c then Some (r, 1) else None)"

text \<open>
  A control word followed by a word boundary, \<open>/\\par\b/g\<close> and \<open>/\\line\b/g\<close>: the
  last code unit matched is a letter, so the boundary holds when the subject ends there or
  goes on with a code unit outside \<open>\w\<close>.
\<close>

definition m_word :: "jsstring \<Rightarrow> jsstring \<Rightarrow> matcher" where
  "m_word kw r s =
     (let k = BSL # kw; n = length k in
      if take n s = k \<and> (case drop n s of [] \<Rightarrow> True | c # _ \<Rightarrow> \<not> is_word c)
      then Some (r, n) else None)"

text \<open>
  A group that opens with a keyword, \<open>/\{\\fonttbl[^}]*\}/g\<close> and its two siblings:
  the body runs to the first closing brace, which must exist.
\<close>

definition m_group :: "jsstring \<Rightarrow> matcher" where
  "m_group kw s =
     (let k = LBR # BSL # kw; n = length k in
      if take n s = k then
        (let body = takeWhile (\<lambda>c. c \<noteq> RBR) (drop n s) in
         if length body < length (drop n s) then Some ([], n + length body + 1) else None)
      else None)"

text \<open>
  Any other control word, \<open>/\\[a-z]+[-]?\d*\s?/gi\<close>: a backslash, one or more letters,
  an optional hyphen, digits, an optional white space. Every part after the letters is
  optional and greedy, so the longest choice at each part is the match.
\<close>

definition m_control :: matcher where
  "m_control s =
     (case s of
        [] \<Rightarrow> None
      | c # r0 \<Rightarrow>
          if c = BSL \<and> takeWhile is_alpha r0 \<noteq> [] then
            (let a = takeWhile is_alpha r0;
                 r1 = dropWhile is_alpha r0;
                 h = (case r1 of [] \<Rightarrow> 0 | d # _ \<Rightarrow> if d = MINUS then 1 else (0::nat));
                 r2 = drop h r1;
                 ds = takeWhile is_digit r2;
                 r3 = dropWhile is_digit r2;
                 w = (case r3 of [] \<Rightarrow> 0 | e # _ \<Rightarrow> if is_space e then 1 else (0::nat))
             in Some ([], 1 + length a + h + length ds + w))
          else None)"

text \<open>A run of white space, \<open>/\s+/g\<close>.\<close>

definition m_spaces :: "jsstring \<Rightarrow> matcher" where
  "m_spaces r s =
     (let w = takeWhile is_space s in if w = [] then None else Some (r, length w))"

text \<open>
  An escaped byte, \<open>/\\'([0-9a-f]{2})/gi\<close>, replaced by
  \<open>String.fromCharCode(parseInt(hex, 16))\<close>.
\<close>

definition m_hex :: matcher where
  "m_hex s =
     (case s of
        b # q # h1 # h2 # _ \<Rightarrow>
          if b = BSL \<and> q = QUOTE \<and> is_hex h1 \<and> is_hex h2
          then Some ([16 * hex_value h1 + hex_value h2], 4) else None
      | _ \<Rightarrow> None)"

text \<open>
  The header, \<open>/^\{\\rtf1[^}]*\}?/\<close>: anchored and not global, so it is tried once, at
  the start. It takes everything up to the first closing brace, and that brace if there is
  one.
\<close>

definition strip_header :: "jsstring \<Rightarrow> jsstring" where
  "strip_header s =
     (let k = LBR # BSL # of_ascii ''rtf1''; n = length k in
      if take n s = k then
        (case dropWhile (\<lambda>c. c \<noteq> RBR) (drop n s) of [] \<Rightarrow> [] | _ # rest \<Rightarrow> rest)
      else s)"

definition trim :: "jsstring \<Rightarrow> jsstring" where
  "trim s = rev (dropWhile is_space (rev (dropWhile is_space s)))"

section \<open>The rich-text codec\<close>

text \<open>
  \<open>Buffer\<close> values are byte sequences. \<open>Buffer.from(string)\<close> and
  \<open>buffer.toString('utf-8')\<close> belong to the platform, not to the program: the functions
  that need them take the UTF-8 encoder and decoder as parameters.
\<close>

datatype buffer = Buffer (bytes: "nat list")

datatype rtf_source = RtfString jsstring | RtfBuffer buffer

definition rtfToText_string :: "jsstring \<Rightarrow> jsstring" where
  "rtfToText_string rtf =
     (let t1 = strip_header rtf;
          t2 = replaceAll (m_word (of_ascii ''par'') [LF]) t1;
          t3 = replaceAll (m_word (of_ascii ''line'') [LF]) t2;
          t4 = replaceAll (m_group (of_ascii ''fonttbl'')) t3;
          t5 = replaceAll (m_group (of_ascii ''colortbl'')) t4;
          t6 = replaceAll (m_group (of_ascii ''stylesheet'')) t5;
          t7 = replaceAll m_control t6;
          t8 = replaceAll (m_class (\<lambda>c. c = LBR \<or> c = RBR) []) t7;
          t9 = replaceAll (m_spaces [SP]) t8;
          text = trim t9
      in replaceAll m_hex text)"

definition rtfToText :: "(buffer \<Rightarrow> jsstring) \<Rightarrow> rtf_source \<Rightarrow> jsstring" where
  "rtfToText utf8_decode rtfData =
     rtfToText_string (case rtfData of RtfString s \<Rightarrow> s | RtfBuffer b \<Rightarrow> utf8_decode b)"

text \<open>
  The decimal numeral of a natural number, for \<open>${fontSize * 2}\<close>; font sizes are taken
  to be natural numbers.
\<close>

fun show_nat :: "nat \<Rightarrow> jsstring" where
  "show_nat n = (if n < 10 then [48 + n] else show_nat (n div 10) @ [48 + n mod 10])"

definition textToRtf :: "jsstring \<Rightarrow> jsstring \<Rightarrow> nat \<Rightarrow> jsstring" where
  "textToRtf text fontName fontSize =
     (let e1 = replaceAll (m_class (\<lambda>c. c = BSL) [BSL, BSL]) text;
          e2 = replaceAll (m_class (\<lambda>c. c = LBR) [BSL, LBR]) e1;
          e3 = replaceAll (m_class (\<lambda>c. c = RBR) [BSL, RBR]) e2;
          escaped = replaceAll (m_class (\<lambda>c. c = LF) (BSL # of_ascii ''par '')) e3
      in LBR # BSL # of_ascii ''rtf1'' @ BSL # of_ascii ''ansi'' @ BSL # of_ascii ''deff0{''
         @ BSL # of_ascii ''fonttbl{'' @ BSL # of_ascii ''f0 '' @ fontName @ of_ascii '';}}''
         @ BSL # of_ascii ''f0'' @ BSL # of_ascii ''fs'' @ show_nat (fontSize * 2) @ [SP]
         @ escaped @ [RBR])"

text \<open>The defaults of the optional parameters: \<open>fontName = 'Arial'\<close>, \<open>fontSize = 48\<close>.\<close>

definition textToRtf_default :: "jsstring \<Rightarrow> jsstring" where
  "textToRtf_default text = textToRtf text (of_ascii ''Arial'') 48"

section \<open>The document model\<close>

text \<open>
  The interfaces of the library, one record each. A field marked optional in the source
  is an \<open>option\<close>. The fields no function of the library reads (those named in the
  interface as well as the open index signature \<open>[key: string]: any\<close>) are kept together
  in one field \<open>..._rest\<close> of an arbitrary type; the field \<open>text\<close> of a graphics
  element is \<open>text_element\<close> here, the field \<open>slide\<close> of an action is
  \<open>action_slide\<close> and the field \<open>prop\<close> of a slide action is \<open>prop_slide\<close>. The nested object
  \<open>{ string: string }\<close> of an identifier is represented by its string.
\<close>

record 'x TextElement =
  rtfData :: "buffer option"
  text_rest :: 'x

record 'x GraphicsElement =
  text_element :: "'x TextElement option"
  graphics_rest :: 'x

record 'x SlideElement =
  element :: "'x GraphicsElement option"
  slide_element_rest :: 'x

record ('x, 's) Slide =
  elements :: "'x SlideElement list option"
  slide_rest :: 's

record ('x, 's) SlideAction =
  presentation :: "('x, 's) Slide option"
  prop_slide :: "'x option"

record ('x, 's) Action =
  action_slide :: "('x, 's) SlideAction option"
  action_rest :: 'x

record ('x, 's) Cue =
  cue_uuid :: "jsstring option"
  cue_name :: "jsstring option"
  actions :: "('x, 's) Action list option"
  cue_rest :: 'x

record 'x Group =
  group_uuid :: "jsstring option"
  group_name :: "jsstring option"
  group_rest :: 'x

record 'x CueGroup =
  group :: "'x Group option"
  cueIdentifiers :: "jsstring list option"

record ('x, 's) Presentation =
  cueGroups :: "'x CueGroup list option"
  cues :: "('x, 's) Cue list option"
  presentation_rest :: 'x

text \<open>The idiom \<open>xs || []\<close> on an optional array.\<close>

definition or_empty :: "'a list option \<Rightarrow> 'a list" where
  "or_empty xs = (case xs of None \<Rightarrow> [] | Some ys \<Rightarrow> ys)"

section \<open>Slide text\<close>

text \<open>
  The test \<open>element.element?.text?.rtfData\<close>: the text payload of an element when the
  element, its text and the text's \<open>rtfData\<close> are all there. A \<open>Buffer\<close> is an object
  and so is truthy whatever its length.
\<close>

definition rtfTextOf :: "'x SlideElement \<Rightarrow> 'x TextElement option" where
  "rtfTextOf e =
     (case element e of
        None \<Rightarrow> None
      | Some g \<Rightarrow>
          (case text_element g of
             None \<Rightarrow> None
           | Some te \<Rightarrow> (case rtfData te of None \<Rightarrow> None | Some _ \<Rightarrow> Some te)))"

fun textElementsOf :: "'x SlideElement list \<Rightarrow> 'x TextElement list" where
  "textElementsOf [] = []"
| "textElementsOf (e # es) =
     (case rtfTextOf e of
        Some te \<Rightarrow> te # textElementsOf es
      | None \<Rightarrow> textElementsOf es)"

definition getSlideTextElements :: "('x, 's) Slide \<Rightarrow> 'x TextElement list" where
  "getSlideTextElements slide = textElementsOf (or_empty (elements slide))"

text \<open>
  \<open>.map(te => rtfToText(te.rtfData!))\<close>: the assertion \<open>!\<close> is erased when the
  program is compiled, and \<open>rtfToText(undefined)\<close> raises a \<open>TypeError\<close> in
  \<open>Buffer.from\<close>.
\<close>

datatype error = TypeError

fun decodeTexts :: "(buffer \<Rightarrow> jsstring) \<Rightarrow> 'x TextElement list \<Rightarrow> error + jsstring list" where
  "decodeTexts utf8_decode [] = Inr []"
| "decodeTexts utf8_decode (te # tes) =
     (case rtfData te of
        None \<Rightarrow> Inl TypeError
      | Some b \<Rightarrow>
          (case decodeTexts utf8_decode tes of
             Inl e \<Rightarrow> Inl e
           | Inr ts \<Rightarrow> Inr (rtfToText utf8_decode (RtfBuffer b) # ts)))"



text \<open>\<open>Array.prototype.join\<close>.\<close>

fun join :: "jsstring \<Rightarrow> jsstring list \<Rightarrow> jsstring" where
  "join sep [] = []"
| "join sep [t] = t"
| "join sep (t # ts) = t @ sep @ join sep ts"

definition getSlideText :: "(buffer \<Rightarrow> jsstring) \<Rightarrow> ('x, 's) Slide \<Rightarrow> error + jsstring" where
  "getSlideText utf8_decode slide =
     (case decodeTexts utf8_decode (getSlideTextElements slide) of
        Inl e \<Rightarrow> Inl e
      | Inr texts \<Rightarrow> Inr (join [LF] (filter (\<lambda>t. length t > 0) texts)))"

fun firstSlide :: "('x, 's) Action list \<Rightarrow> ('x, 's) Slide option" where
  "firstSlide [] = None"
| "firstSlide (a # as) =
     (case action_slide a of
        None \<Rightarrow> firstSlide as
      | Some sa \<Rightarrow> (case presentation sa of None \<Rightarrow> firstSlide as | Some s \<Rightarrow> Some s))"

definition getCueSlide :: "('x, 's) Cue \<Rightarrow> ('x, 's) Slide option" where
  "getCueSlide cue = firstSlide (or_empty (actions cue))"

definition getCueText :: "(buffer \<Rightarrow> jsstring) \<Rightarrow> ('x, 's) Cue \<Rightarrow> error + jsstring" where
  "getCueText utf8_decode cue =
     (case getCueSlide cue of None \<Rightarrow> Inr [] | Some slide \<Rightarrow> getSlideText utf8_decode slide)"

text \<open>
  \<open>setSlideText\<close> assigns to \<open>element.element.text.rtfData\<close> of an object reached from
  the cue. The model passes the state: each function returns its flag together with the
  object as it is after the call.
\<close>

definition withRtfData :: "'x SlideElement \<Rightarrow> buffer \<Rightarrow> 'x SlideElement" where
  "withRtfData e b =
     e\<lparr>element :=
         map_option (\<lambda>g. g\<lparr>text_element :=
                  map_option (\<lambda>te. te\<lparr>rtfData := Some b\<rparr>) (text_element g)\<rparr>)
           (element e)\<rparr>"

fun setFirstText :: "buffer \<Rightarrow> 'x SlideElement list \<Rightarrow> bool \<times> 'x SlideElement list" where
  "setFirstText b [] = (False, [])"
| "setFirstText b (e # es) =
     (case rtfTextOf e of
        Some _ \<Rightarrow> (True, withRtfData e b # es)
      | None \<Rightarrow> (case setFirstText b es of (ok, es') \<Rightarrow> (ok, e # es')))"

definition setSlideText ::
  "(jsstring \<Rightarrow> buffer) \<Rightarrow> ('x, 's) Slide \<Rightarrow> jsstring \<Rightarrow> bool \<times> ('x, 's) Slide" where
  "setSlideText utf8_encode slide t =
     (case elements slide of
        None \<Rightarrow> (False, slide)
      | Some es \<Rightarrow>
          (case setFirstText (utf8_encode (textToRtf_default t)) es of
             (ok, es') \<Rightarrow> (ok, slide\<lparr>elements := Some es'\<rparr>)))"

text \<open>
  The slide \<open>getCueSlide\<close> returns is the object inside the cue, so what
  \<open>setSlideText\<close> did to it shows in the cue at the place it was read from. The objects
  of a document form a tree: no slide is shared between two actions.
\<close>

fun putFirstSlide :: "('x, 's) Slide \<Rightarrow> ('x, 's) Action list \<Rightarrow> ('x, 's) Action list" where
  "putFirstSlide s' [] = []"
| "putFirstSlide s' (a # as) =
     (case action_slide a of
        None \<Rightarrow> a # putFirstSlide s' as
      | Some sa \<Rightarrow>
          (case presentation sa of
             None \<Rightarrow> a # putFirstSlide s' as
           | Some _ \<Rightarrow> a\<lparr>action_slide := Some (sa\<lparr>presentation := Some s'\<rparr>)\<rparr> # as))"

definition putCueSlide :: "('x, 's) Cue \<Rightarrow> ('x, 's) Slide \<Rightarrow> ('x, 's) Cue" where
  "putCueSlide cue s' = cue\<lparr>actions := map_option (putFirstSlide s') (actions cue)\<rparr>"

definition setCueText ::
  "(jsstring \<Rightarrow> buffer) \<Rightarrow> ('x, 's) Cue \<Rightarrow> jsstring \<Rightarrow> bool \<times> ('x, 's) Cue" where
  "setCueText utf8_encode cue t =
     (case getCueSlide cue of
        None \<Rightarrow> (False, cue)
      | Some slide \<Rightarrow>
          (case setSlideText utf8_encode slide t of
             (ok, slide') \<Rightarrow> (ok, putCueSlide cue slide')))"

section \<open>Cues by group\<close>

text \<open>
  \<open>cueMap\<close> is only ever looked up, so it is a partial function. \<open>result\<close> is returned
  and iterated, so it keeps the insertion order of a \<open>Map\<close>: \<open>map_set\<close> on a key that
  is there replaces the value in place, and appends the entry otherwise.
\<close>

fun buildCueMap ::
  "('x, 's) Cue list \<Rightarrow> (jsstring \<rightharpoonup> ('x, 's) Cue) \<Rightarrow> (jsstring \<rightharpoonup> ('x, 's) Cue)" where
  "buildCueMap [] m = m"
| "buildCueMap (cue # rest) m =
     buildCueMap rest
       (case cue_uuid cue of
          None \<Rightarrow> m
        | Some u \<Rightarrow> if u \<noteq> [] then m(u \<mapsto> cue) else m)"

fun map_set :: "'k \<Rightarrow> 'v \<Rightarrow> ('k \<times> 'v) list \<Rightarrow> ('k \<times> 'v) list" where
  "map_set k v [] = [(k, v)]"
| "map_set k v ((k', v') # kvs) =
     (if k' = k then (k, v) # kvs else (k', v') # map_set k v kvs)"

text \<open>\<open>group.group?.name || 'Unnamed'\<close>: the empty string is falsy.\<close>

definition groupName :: "'x CueGroup \<Rightarrow> jsstring" where
  "groupName g =
     (case group g of
        None \<Rightarrow> of_ascii ''Unnamed''
      | Some gr \<Rightarrow>
          (case group_name gr of
             None \<Rightarrow> of_ascii ''Unnamed''
           | Some n \<Rightarrow> if n = [] then of_ascii ''Unnamed'' else n))"

fun resolveCues :: "(jsstring \<rightharpoonup> 'c) \<Rightarrow> jsstring list \<Rightarrow> 'c list" where
  "resolveCues m [] = []"
| "resolveCues m (i # ids) =
     (case m i of Some cue \<Rightarrow> cue # resolveCues m ids | None \<Rightarrow> resolveCues m ids)"

fun groupCues ::
  "(jsstring \<rightharpoonup> 'c) \<Rightarrow> 'x CueGroup list \<Rightarrow> (jsstring \<times> 'c list) list \<Rightarrow>
   (jsstring \<times> 'c list) list" where
  "groupCues m [] result = result"
| "groupCues m (g # gs) result =
     groupCues m gs
       (map_set (groupName g) (resolveCues m (or_empty (cueIdentifiers g))) result)"

definition getCuesByGroup ::
  "('x, 's) Presentation \<Rightarrow> (jsstring \<times> ('x, 's) Cue list) list" where
  "getCuesByGroup p =
     groupCues (buildCueMap (or_empty (cues p)) Map.empty) (or_empty (cueGroups p)) []"

section \<open>Identifiers\<close>

text \<open>
  \<open>generateUuid\<close> replaces every \<open>x\<close> and \<open>y\<close> of a template by a hexadecimal digit
  made from \<open>Math.random() * 16 | 0\<close>, a number from 0 to 15. The source of randomness
  is a sequence of such draws; the state is the number of draws made so far. For \<open>y\<close> the
  digit is \<open>r & 0x3 | 0x8\<close>, the two low bits of the draw plus eight.
\<close>

type_synonym random = "nat \<Rightarrow> nat"

definition hex_digit :: "nat \<Rightarrow> nat" where
  "hex_digit v = (if v < 10 then 48 + v else 55 + v)"

fun fill_template :: "random \<Rightarrow> nat \<Rightarrow> string \<Rightarrow> jsstring \<times> nat" where
  "fill_template rnd k [] = ([], k)"
| "fill_template rnd k (c # cs) =
     (if c = CHR ''x'' \<or> c = CHR ''y'' then
        (let r = rnd k mod 16;
             v = (if c = CHR ''x'' then r else r mod 4 + 8)
         in case fill_template rnd (Suc k) cs of (rest, k') \<Rightarrow> (hex_digit v # rest, k'))
      else
        (case fill_template rnd k cs of (rest, k') \<Rightarrow> (of_char c # rest, k')))"

definition generateUuid :: "random \<Rightarrow> nat \<Rightarrow> jsstring \<times> nat" where
  "generateUuid rnd k = fill_template rnd k ''xxxxxxxx-xxxx-4xxx-yxxx-xxxxxxxxxxxx''"

section \<open>Creating a presentation\<close>

text \<open>
  The input of \<open>createPresentation\<close>. A slide is a string or a \<open>SlideInput\<close>. A colour
  is a value of an arbitrary type \<open>'c\<close>. The options that only fill the CCLI and music
  blocks of the result (artist, CCLI number and author, copyright year, publisher, music
  key) and the geometry (slide size, text bounds) are left out: they draw no identifier and
  neither the cues nor the cue groups depend on them.
\<close>

record ChordPosition =
  position :: int
  chord :: jsstring

record SlideInput =
  input_text :: jsstring
  chords :: "ChordPosition list option"

datatype slide_input = SlideString jsstring | SlideObject SlideInput

record 'c SectionInput =
  section_name :: jsstring
  slides :: "slide_input list"
  color :: "'c option"

text \<open>The option \<open>notes\<close> is the field \<open>option_notes\<close>.\<close>

record 'c CreatePresentationOptions =
  title :: jsstring
  category :: "jsstring option"
  option_notes :: "jsstring option"
  sections :: "'c SectionInput list"
  fontName :: "jsstring option"
  fontSize :: "nat option"
  createArrangement :: "bool option"

text \<open>
  What the created objects hold besides the fields of the document model. Attributes with
  a fixed default value are not listed. A group takes the colour of its section or else
  the entry \<open>sectionIndex % 6\<close> of the default palette.
\<close>

datatype 'c group_color = SectionColor 'c | DefaultColor nat

datatype 'c created =
    TextAttributes jsstring nat "(int \<times> int \<times> jsstring option) list"
  | ElementAttributes jsstring jsstring
  | SlideElementAttributes
  | SlideAttributes jsstring
  | ActionAttributes jsstring
  | CueAttributes
  | GroupAttributes "'c group_color"
  | PresentationAttributes jsstring jsstring jsstring jsstring "(jsstring \<times> jsstring list) option"

text \<open>
  \<open>createCue\<close> stores under \<open>presentation\<close> an object that wraps the slide:
  \<open>{ baseSlide: slide, notes: null, ... }\<close>. It has no field \<open>elements\<close> of its own.
\<close>

datatype 'c presentation_slide = PresentationSlide (baseSlide: "('c created, 'c created) Slide")

text \<open>
  The custom attributes of a text: one range per chord, from its position to the next
  chord's position or the end of the text, the chords sorted by position; without chords,
  one range over the whole text.
\<close>

fun chordRanges :: "ChordPosition list \<Rightarrow> int \<Rightarrow> (int \<times> int \<times> jsstring option) list" where
  "chordRanges [] len = []"
| "chordRanges [c] len = [(position c, len, Some (chord c))]"
| "chordRanges (c # d # cs) len = (position c, position d, Some (chord c)) # chordRanges (d # cs) len"

definition createTextElement ::
  "(jsstring \<Rightarrow> buffer) \<Rightarrow> random \<Rightarrow> nat \<Rightarrow> jsstring \<Rightarrow> 'c CreatePresentationOptions \<Rightarrow>
   ChordPosition list option \<Rightarrow> 'c created GraphicsElement \<times> nat" where
  "createTextElement utf8_encode rnd k txt options chs =
     (let font = (case fontName options of
                    None \<Rightarrow> of_ascii ''Arial''
                  | Some n \<Rightarrow> if n \<noteq> [] then n else of_ascii ''Arial'');
          size = (case fontSize options of None \<Rightarrow> 72 | Some n \<Rightarrow> if n \<noteq> 0 then n else 72);
          rtf = utf8_encode (textToRtf txt font size);
          customAttributes =
            (case chs of
               None \<Rightarrow> [(0, int (length txt), None)]
             | Some cs \<Rightarrow>
                 if length cs > 0 then chordRanges (sort_key position cs) (int (length txt))
                 else [(0, int (length txt), None)])
      in case generateUuid rnd k of
           (uuid, k1) \<Rightarrow>
             (\<lparr>text_element =
                  Some \<lparr>rtfData = Some rtf, text_rest = TextAttributes font size customAttributes\<rparr>,
                graphics_rest = ElementAttributes uuid txt\<rparr>, k1))"

definition createSlide ::
  "(jsstring \<Rightarrow> buffer) \<Rightarrow> random \<Rightarrow> nat \<Rightarrow> jsstring \<Rightarrow> 'c CreatePresentationOptions \<Rightarrow>
   ChordPosition list option \<Rightarrow> ('c created, 'c created) Slide \<times> nat" where
  "createSlide utf8_encode rnd k txt options chs =
     (case createTextElement utf8_encode rnd k txt options chs of
        (el, k1) \<Rightarrow>
          (case generateUuid rnd k1 of
             (uuid, k2) \<Rightarrow>
               (\<lparr>elements = Some [\<lparr>element = Some el, slide_element_rest = SlideElementAttributes\<rparr>],
                  slide_rest = SlideAttributes uuid\<rparr>, k2)))"

definition createCue ::
  "(jsstring \<Rightarrow> buffer) \<Rightarrow> random \<Rightarrow> nat \<Rightarrow> jsstring \<Rightarrow> jsstring \<Rightarrow>
   'c CreatePresentationOptions \<Rightarrow> ChordPosition list option \<Rightarrow>
   ('c created, 'c presentation_slide) Cue \<times> nat" where
  "createCue utf8_encode rnd k name slideText options chs =
     (case createSlide utf8_encode rnd k slideText options chs of
        (sl, k1) \<Rightarrow>
          (case generateUuid rnd k1 of
             (actionUuid, k2) \<Rightarrow>
               (case generateUuid rnd k2 of
                  (cueUuid, k3) \<Rightarrow>
                    (\<lparr>cue_uuid = Some cueUuid,
                       cue_name = Some name,
                       actions = Some
                         [\<lparr>action_slide = Some
                              \<lparr>presentation = Some \<lparr>elements = None, slide_rest = PresentationSlide sl\<rparr>,
                                prop_slide = None\<rparr>,
                            action_rest = ActionAttributes actionUuid\<rparr>],
                       cue_rest = CueAttributes\<rparr>, k3))))"

text \<open>
  The inner loop of \<open>createPresentation\<close>, over the slides of one section: the cues it
  pushes to \<open>cues\<close> and the identifiers it pushes to \<open>cueIdentifiers\<close>. A cue made by
  \<open>createCue\<close> always has its \<open>uuid\<close>.
\<close>

fun createCues ::
  "(jsstring \<Rightarrow> buffer) \<Rightarrow> random \<Rightarrow> nat \<Rightarrow> 'c CreatePresentationOptions \<Rightarrow> jsstring \<Rightarrow> nat \<Rightarrow>
   slide_input list \<Rightarrow> ('c created, 'c presentation_slide) Cue list \<times> jsstring list \<times> nat" where
  "createCues utf8_encode rnd k options sname slideIndex [] = ([], [], k)"
| "createCues utf8_encode rnd k options sname slideIndex (slideInput # rest) =
     (let cueName = sname @ of_ascii '' - Slide '' @ show_nat (slideIndex + 1);
          slideText = (case slideInput of SlideString s \<Rightarrow> s | SlideObject i \<Rightarrow> input_text i);
          chs = (case slideInput of SlideString s \<Rightarrow> None | SlideObject i \<Rightarrow> chords i)
      in case createCue utf8_encode rnd k cueName slideText options chs of
           (cue, k1) \<Rightarrow>
             (case createCues utf8_encode rnd k1 options sname (slideIndex + 1) rest of
                (cs, ids, k2) \<Rightarrow>
                  (cue # cs, (case cue_uuid cue of None \<Rightarrow> [] | Some u \<Rightarrow> [u]) @ ids, k2)))"

text \<open>
  The outer loop, over the sections: the cues, the cue groups and the group identifiers it
  pushes.
\<close>

fun createSections ::
  "(jsstring \<Rightarrow> buffer) \<Rightarrow> random \<Rightarrow> nat \<Rightarrow> 'c CreatePresentationOptions \<Rightarrow> nat \<Rightarrow>
   'c SectionInput list \<Rightarrow>
   ('c created, 'c presentation_slide) Cue list \<times> 'c created CueGroup list \<times> jsstring list \<times> nat"
  where
  "createSections utf8_encode rnd k options sectionIndex [] = ([], [], [], k)"
| "createSections utf8_encode rnd k options sectionIndex (section # rest) =
     (case generateUuid rnd k of
        (groupUuid, k1) \<Rightarrow>
          (case createCues utf8_encode rnd k1 options (section_name section) 0 (slides section) of
             (cs, ids, k2) \<Rightarrow>
               (let col = (case color section of
                             Some c \<Rightarrow> SectionColor c
                           | None \<Rightarrow> DefaultColor (sectionIndex mod 6));
                    cueGroup =
                      \<lparr>group = Some \<lparr>group_uuid = Some groupUuid,
                                     group_name = Some (section_name section),
                                     group_rest = GroupAttributes col\<rparr>,
                        cueIdentifiers = Some ids\<rparr>
                in case createSections utf8_encode rnd k2 options (sectionIndex + 1) rest of
                     (cs', gs', gids', k3) \<Rightarrow> (cs @ cs', cueGroup # gs', groupUuid # gids', k3))))"

definition createPresentation ::
  "(jsstring \<Rightarrow> buffer) \<Rightarrow> random \<Rightarrow> nat \<Rightarrow> 'c CreatePresentationOptions \<Rightarrow>
   ('c created, 'c presentation_slide) Presentation \<times> nat" where
  "createPresentation utf8_encode rnd k options =
     (case createSections utf8_encode rnd k options 0 (sections options) of
        (cs, gs, groupIdentifiers, k1) \<Rightarrow>
          (case generateUuid rnd k1 of
             (uuid, k2) \<Rightarrow>
               (case (if createArrangement options \<noteq> Some False
                      then (case generateUuid rnd k2 of
                              (u, k3) \<Rightarrow> (Some (u, groupIdentifiers), k3))
                      else (None, k2)) of
                  (arrangement, k3) \<Rightarrow>
                    (\<lparr>cueGroups = Some gs,
                       cues = Some cs,
                       presentation_rest =
                         PresentationAttributes uuid (title options)
                           (case category options of None \<Rightarrow> [] | Some c \<Rightarrow> c)
                           (case option_notes options of None \<Rightarrow> [] | Some n \<Rightarrow> n)
                           arrangement\<rparr>, k3))))"

section \<open>Notions used to state the results\<close>

text \<open>
  These are not functions of the program. \<open>show_nat\<close> is unfolded by hand only.
\<close>

declare show_nat.simps [simp del]

text \<open>A text without backslash and braces.\<close>

definition no_markup :: "jsstring \<Rightarrow> bool" where
  "no_markup s = (\<forall>c\<in>set s. c \<noteq> BSL \<and> c \<noteq> LBR \<and> c \<noteq> RBR)"

text \<open>
  A text whose white space is single spaces between two other characters: every white
  space code unit is a space with a code unit after it that is not white space, and the
  text does not start with white space. Tabs, newlines and carriage returns are white
  space.
\<close>

fun single_spaced :: "jsstring \<Rightarrow> bool" where
  "single_spaced [] = True"
| "single_spaced [c] = (\<not> is_space c)"
| "single_spaced (c # d # cs) =
     ((is_space c \<longrightarrow> c = SP \<and> \<not> is_space d) \<and> single_spaced (d # cs))"

definition ws_normal :: "jsstring \<Rightarrow> bool" where
  "ws_normal s = ((case s of [] \<Rightarrow> True | c # _ \<Rightarrow> \<not> is_space c) \<and> single_spaced s)"

text \<open>
  The characters the encoder escapes, and a text in which no backslash stands before a
  letter and no escaped character stands before an apostrophe.
\<close>

abbreviation is_escaped :: "nat \<Rightarrow> bool" where
  "is_escaped c \<equiv> c = BSL \<or> c = LBR \<or> c = RBR"

fun followed_safely :: "jsstring \<Rightarrow> bool" where
  "followed_safely [] = True"
| "followed_safely [c] = True"
| "followed_safely (c # d # cs) =
     ((c = BSL \<longrightarrow> \<not> is_alpha d) \<and> (is_escaped c \<longrightarrow> d \<noteq> QUOTE) \<and> followed_safely (d # cs))"

text \<open>
  A text in which no backslash stands before a letter, and one in which no backslash stands
  before an apostrophe.
\<close>

fun no_control :: "jsstring \<Rightarrow> bool" where
  "no_control [] = True"
| "no_control (c # cs) =
     ((c = BSL \<longrightarrow> (case cs of [] \<Rightarrow> True | d # _ \<Rightarrow> \<not> is_alpha d)) \<and> no_control cs)"

fun no_hex :: "jsstring \<Rightarrow> bool" where
  "no_hex [] = True"
| "no_hex (c # cs) =
     ((c = BSL \<longrightarrow> (case cs of [] \<Rightarrow> True | d # _ \<Rightarrow> d \<noteq> QUOTE)) \<and> no_hex cs)"




text \<open>
  The presentation slides of a cue's actions, in order, and the \<open>rtfData\<close> of the
  elements of a slide that have one, in order.
\<close>

definition presentationSlides :: "('x, 's) Cue \<Rightarrow> ('x, 's) Slide list" where
  "presentationSlides cue =
     List.map_filter (\<lambda>a. Option.bind (action_slide a) presentation) (or_empty (actions cue))"

definition rtfBuffers :: "('x, 's) Slide \<Rightarrow> buffer list" where
  "rtfBuffers sl =
     List.map_filter (\<lambda>e. Option.bind (element e) (\<lambda>g. Option.bind (text_element g) rtfData))
       (or_empty (elements sl))"

section \<open>Example values\<close>

text \<open>
  On ASCII text UTF-8 has one byte per code unit, of the same value; the examples are
  ASCII.
\<close>

definition ascii_encode :: "jsstring \<Rightarrow> buffer" where
  "ascii_encode s = Buffer s"

definition ascii_decode :: "buffer \<Rightarrow> jsstring" where
  "ascii_decode b = bytes b"

text \<open>
  The rich text \<open>{\rtf1\ansi\deff0{\fonttbl{\f0 Arial;}}\f0\fs48 Hi\par there}\<close>.
\<close>

definition example_rtf :: jsstring where
  "example_rtf =
     LBR # BSL # of_ascii ''rtf1'' @ BSL # of_ascii ''ansi'' @ BSL # of_ascii ''deff0{''
     @ BSL # of_ascii ''fonttbl{'' @ BSL # of_ascii ''f0 Arial;}}''
     @ BSL # of_ascii ''f0'' @ BSL # of_ascii ''fs48 Hi'' @ BSL # of_ascii ''par there}''"


text \<open>
  A slide element with a text, one without, a cue with one action showing a slide, a named
  cue group, a document, and options for a presentation of two sections.
\<close>

definition text_box :: "jsstring \<Rightarrow> unit SlideElement" where
  "text_box rtf =
     \<lparr>element = Some \<lparr>text_element = Some \<lparr>rtfData = Some (ascii_encode rtf), text_rest = ()\<rparr>,
                       graphics_rest = ()\<rparr>,
      slide_element_rest = ()\<rparr>"

definition shape :: "unit SlideElement" where
  "shape = \<lparr>element = Some \<lparr>text_element = None, graphics_rest = ()\<rparr>, slide_element_rest = ()\<rparr>"

definition slide_cue :: "jsstring \<Rightarrow> unit SlideElement list \<Rightarrow> (unit, unit) Cue" where
  "slide_cue u es =
     \<lparr>cue_uuid = Some u, cue_name = None,
      actions = Some [\<lparr>action_slide = Some \<lparr>presentation = Some \<lparr>elements = Some es, slide_rest = ()\<rparr>,
                                              prop_slide = None\<rparr>,
                       action_rest = ()\<rparr>],
      cue_rest = ()\<rparr>"

definition named_group :: "jsstring \<Rightarrow> jsstring list \<Rightarrow> unit CueGroup" where
  "named_group n ids =
     \<lparr>group = Some \<lparr>group_uuid = None, group_name = Some n, group_rest = ()\<rparr>,
      cueIdentifiers = Some ids\<rparr>"

definition document :: "unit CueGroup list \<Rightarrow> (unit, unit) Cue list \<Rightarrow> (unit, unit) Presentation" where
  "document gs cs = \<lparr>cueGroups = Some gs, cues = Some cs, presentation_rest = ()\<rparr>"

definition options_example :: "unit CreatePresentationOptions" where
  "options_example =
     \<lparr>title = of_ascii ''Test Song'', category = None, option_notes = None,
      sections =
        [\<lparr>section_name = of_ascii ''Verse 1'',
          slides = [SlideString (of_ascii ''Line one''), SlideString (of_ascii ''Line two'')],
          color = None\<rparr>,
         \<lparr>section_name = of_ascii ''Chorus'',
          slides = [SlideObject \<lparr>input_text = of_ascii ''Sing'', chords = None\<rparr>],
          color = None\<rparr>],
      fontName = None, fontSize = None, createArrangement = None\<rparr>"

lemmas example_defs = ascii_encode_def ascii_decode_def text_box_def shape_def slide_cue_def
  named_group_def document_def

section \<open>Global replacement and the matchers\<close>

lemma replaceAll_inert:
  assumes "\<And>t. P t \<Longrightarrow> m t = None" and "\<And>c cs. P (c # cs) \<Longrightarrow> P cs" and "P s"
  shows "replaceAll m s = s"
  using assms(3)
proof (induction s)
  case Nil
  then show ?case by simp
next
  case (Cons c cs)
  then show ?case using assms(1) [of "c # cs"] assms(2) [of c cs] by simp
qed

lemma replaceAll_class:
  "replaceAll (m_class P r) s = concat (map (\<lambda>c. if P c then r else [c]) s)"
  by (induction s) (auto simp: m_class_def)


lemma m_class_Cons: "m_class P r (c # cs) = (if P c then Some (r, 1) else None)"
  by (simp add: m_class_def)

lemma m_word_Nil: "m_word kw r [] = None"
  by (simp add: m_word_def)

lemma m_word_Cons:
  "m_word kw r (c # cs) =
     (if c = BSL \<and> take (length kw) cs = kw \<and>
         (case drop (length kw) cs of [] \<Rightarrow> True | d # _ \<Rightarrow> \<not> is_word d)
      then Some (r, Suc (length kw)) else None)"
  by (simp add: m_word_def)

lemma m_group_Nil: "m_group kw [] = None"
  by (simp add: m_group_def)

lemma m_group_Cons:
  "m_group kw (c # cs) =
     (if c = LBR \<and> take (Suc (length kw)) cs = BSL # kw then
        (if length (takeWhile (\<lambda>c. c \<noteq> RBR) (drop (Suc (length kw)) cs))
            < length cs - Suc (length kw)
         then Some ([], length kw + length (takeWhile (\<lambda>c. c \<noteq> RBR) (drop (Suc (length kw)) cs)) + 3)
         else None)
      else None)"
  by (cases cs) (auto simp: m_group_def Let_def)

lemma m_control_Nil: "m_control [] = None"
  by (simp add: m_control_def)

lemma m_control_Cons:
  "m_control (c # r0) =
     (if c = BSL \<and> takeWhile is_alpha r0 \<noteq> [] then
        (let a = takeWhile is_alpha r0;
             r1 = dropWhile is_alpha r0;
             h = (case r1 of [] \<Rightarrow> 0 | d # _ \<Rightarrow> if d = MINUS then 1 else (0::nat));
             r2 = drop h r1;
             ds = takeWhile is_digit r2;
             r3 = dropWhile is_digit r2;
             w = (case r3 of [] \<Rightarrow> 0 | e # _ \<Rightarrow> if is_space e then 1 else (0::nat))
         in Some ([], 1 + length a + h + length ds + w))
      else None)"
  by (simp add: m_control_def)

lemma m_hex_Nil: "m_hex [] = None"
  by (simp add: m_hex_def)

lemma m_hex_Cons:
  "m_hex (c # cs) =
     (case cs of
        q # h1 # h2 # _ \<Rightarrow>
          if c = BSL \<and> q = QUOTE \<and> is_hex h1 \<and> is_hex h2
          then Some ([16 * hex_value h1 + hex_value h2], 4) else None
      | _ \<Rightarrow> None)"
  by (simp add: m_hex_def split: list.splits)

lemma m_spaces_Nil: "m_spaces r [] = None"
  by (simp add: m_spaces_def)

lemma m_spaces_Cons:
  "m_spaces r (c # cs) =
     (if is_space c then Some (r, Suc (length (takeWhile is_space cs))) else None)"
  by (simp add: m_spaces_def)

lemmas matcher_simps =
  m_class_Cons m_word_Nil m_word_Cons m_group_Nil m_group_Cons m_control_Nil m_control_Cons
  m_hex_Nil m_hex_Cons m_spaces_Nil m_spaces_Cons

lemmas rtf_eval = of_ascii_def strip_header_def m_word_def m_group_def m_control_def m_class_def m_spaces_def trim_def m_hex_def is_alpha_def is_digit_def is_word_def is_space_def is_hex_def hex_value_def

lemma show_nat_96: "show_nat 96 = [57, 54]"
  by (simp add: show_nat.simps)

section \<open>White space\<close>

lemma single_spaced_last: "single_spaced s \<Longrightarrow> s \<noteq> [] \<Longrightarrow> \<not> is_space (last s)"
  by (induction s rule: single_spaced.induct) auto

lemma single_spaced_Cons:
  "single_spaced (x # ys) =
     ((is_space x \<longrightarrow> x = SP \<and> ys \<noteq> [] \<and> \<not> is_space (hd ys)) \<and> single_spaced ys)"
  by (cases ys) auto

lemma collapse_single_spaced: "single_spaced s \<Longrightarrow> replaceAll (m_spaces [SP]) s = s"
proof (induction s rule: single_spaced.induct)
  case 1
  then show ?case by simp
next
  case (2 c)
  then show ?case by (simp add: m_spaces_Cons)
next
  case (3 c d cs)
  show ?case
  proof (cases "is_space c")
    case True
    with 3 have "c = SP" "\<not> is_space d" "replaceAll (m_spaces [SP]) (d # cs) = d # cs" by auto
    then show ?thesis using True by (simp add: m_spaces_Cons)
  next
    case False
    with 3 show ?thesis by (simp add: m_spaces_Cons)
  qed
qed

lemma dropWhile_hd: "s \<noteq> [] \<Longrightarrow> \<not> P (hd s) \<Longrightarrow> dropWhile P s = s"
  by (cases s) auto

lemma trim_ws_normal: "ws_normal s \<Longrightarrow> trim s = s"
proof (cases "s = []")
  case True
  then show ?thesis by (simp add: trim_def)
next
  case False
  assume n: "ws_normal s"
  then have "\<not> is_space (hd s)" using False by (cases s) (auto simp: ws_normal_def)
  then have 1: "dropWhile is_space s = s" using False by (simp add: dropWhile_hd)
  have "\<not> is_space (last s)" using n False single_spaced_last [of s] by (simp add: ws_normal_def)
  then have "\<not> is_space (hd (rev s))" by (simp add: hd_rev)
  then have 2: "dropWhile is_space (rev s) = rev s" using False by (simp add: dropWhile_hd)
  show ?thesis by (simp add: trim_def 1 2)
qed

lemma ws_normal_no_LF: "ws_normal s \<Longrightarrow> LF \<notin> set s"
proof -
  have "single_spaced s \<Longrightarrow> \<forall>c\<in>set s. is_space c \<longrightarrow> c = SP"
    by (induction s rule: single_spaced.induct) auto
  moreover have "is_space LF" by (simp add: is_space_def)
  ultimately show "ws_normal s \<Longrightarrow> LF \<notin> set s" by (auto simp: ws_normal_def)
qed









section \<open>Decoding an encoded text\<close>

lemma no_control_word:
  "kw \<noteq> [] \<Longrightarrow> is_alpha (hd kw) \<Longrightarrow> no_control s \<Longrightarrow> replaceAll (m_word kw r) s = s"
proof (rule replaceAll_inert [of no_control])
  fix t assume k: "kw \<noteq> []" "is_alpha (hd kw)" and t: "no_control t"
  show "m_word kw r t = None"
  proof (cases t)
    case Nil
    then show ?thesis by (simp add: m_word_Nil)
  next
    case (Cons c cs)
    obtain x xs where kw: "kw = x # xs" using k(1) by (cases kw) auto
    have "\<not> (c = BSL \<and> take (length kw) cs = kw)"
    proof
      assume a: "c = BSL \<and> take (length kw) cs = kw"
      then obtain ds where "cs = x # ds" unfolding kw by (cases cs) auto
      then show False using t Cons a k(2) kw by auto
    qed
    then show ?thesis by (auto simp: Cons m_word_Cons)
  qed
qed auto

lemma no_control_group:
  "kw \<noteq> [] \<Longrightarrow> is_alpha (hd kw) \<Longrightarrow> no_control s \<Longrightarrow> replaceAll (m_group kw) s = s"
proof (rule replaceAll_inert [of no_control])
  fix t assume k: "kw \<noteq> []" "is_alpha (hd kw)" and t: "no_control t"
  show "m_group kw t = None"
  proof (cases t)
    case Nil
    then show ?thesis by (simp add: m_group_Nil)
  next
    case (Cons c cs)
    have "take (Suc (length kw)) cs \<noteq> BSL # kw"
    proof
      assume a: "take (Suc (length kw)) cs = BSL # kw"
      obtain y ys where kw: "kw = y # ys" using k(1) by (cases kw) auto
      from a obtain xs where cs: "cs = BSL # xs" "take (length kw) xs = kw" by (cases cs) auto
      then obtain ds where "xs = y # ds" unfolding kw by (cases xs) auto
      then show False using t Cons cs k(2) kw by auto
    qed
    then show ?thesis by (simp add: Cons m_group_Cons)
  qed
qed auto

lemma no_control_control: "no_control s \<Longrightarrow> replaceAll m_control s = s"
proof (rule replaceAll_inert [of no_control])
  fix t assume t: "no_control t"
  show "m_control t = None"
  proof (cases t)
    case Nil
    then show ?thesis by (simp add: m_control_Nil)
  next
    case (Cons c cs)
    then have "c = BSL \<Longrightarrow> takeWhile is_alpha cs = []" using t by (cases cs) auto
    then show ?thesis by (auto simp: Cons m_control_Cons)
  qed
qed auto

lemma no_hex_hex: "no_hex s \<Longrightarrow> replaceAll m_hex s = s"
proof (rule replaceAll_inert [of no_hex])
  fix t assume t: "no_hex t"
  then show "m_hex t = None" by (cases t) (auto simp: m_hex_Cons m_hex_Nil split: list.splits)
qed auto

lemma textToRtf_escaped:
  assumes "LF \<notin> set s"
  shows "textToRtf_default s =
    [LBR, BSL, 114, 116, 102, 49, BSL, 97, 110, 115, 105, BSL, 100, 101, 102, 102, 48, LBR,
     BSL, 102, 111, 110, 116, 116, 98, 108, LBR, BSL, 102, 48, SP, 65, 114, 105, 97, 108, 59,
     RBR, RBR, BSL, 102, 48, BSL, 102, 115, 57, 54, SP]
    @ concat (map (\<lambda>c. if is_escaped c then [BSL, c] else [c]) s) @ [RBR]"
proof -
  have "replaceAll (m_class (\<lambda>c. c = LF) r4)
          (replaceAll (m_class (\<lambda>c. c = RBR) [BSL, RBR])
            (replaceAll (m_class (\<lambda>c. c = LBR) [BSL, LBR])
              (replaceAll (m_class (\<lambda>c. c = BSL) [BSL, BSL]) s)))
        = concat (map (\<lambda>c. if is_escaped c then [BSL, c] else [c]) s)" for r4
    using assms unfolding replaceAll_class
    by (induction s) auto
  then show ?thesis
    unfolding textToRtf_default_def textToRtf_def Let_def
    by (simp add: of_ascii_def show_nat_96)
qed

lemma escaped_no_control:
  "followed_safely s \<Longrightarrow>
   no_control (concat (map (\<lambda>c. if is_escaped c then [BSL, c] else [c]) s) @ [RBR])"
  by (induction s rule: followed_safely.induct) (auto simp: is_alpha_def)

lemma braces_removed:
  "replaceAll (m_class (\<lambda>c. c = LBR \<or> c = RBR) [])
     ([RBR] @ concat (map (\<lambda>c. if is_escaped c then [BSL, c] else [c]) s) @ [RBR])
   = concat (map (\<lambda>c. if c = BSL then [BSL, BSL] else if c = LBR \<or> c = RBR then [BSL] else [c]) s)"
  unfolding replaceAll_class by (induction s) auto

lemma unescaped_ws_normal:
  assumes "ws_normal s"
  shows "ws_normal (concat (map (\<lambda>c. if c = BSL then [BSL, BSL] else if c = LBR \<or> c = RBR then [BSL] else [c]) s))"
proof -
  let ?d = "\<lambda>c. if c = BSL then [BSL, BSL] else if c = LBR \<or> c = RBR then [BSL] else [c]"
  have b: "\<not> is_space BSL" by (simp add: is_space_def)
  have h: "\<not> is_space (hd (concat (map ?d (c # cs))))" if "\<not> is_space c" for c cs
    using that b by auto
  have "single_spaced s \<Longrightarrow> single_spaced (concat (map ?d s))"
  proof (induction s rule: single_spaced.induct)
    case 1
    then show ?case by simp
  next
    case (2 c)
    then show ?case using b by (auto simp: single_spaced_Cons)
  next
    case (3 c d cs)
    then have r: "single_spaced (concat (map ?d (d # cs)))" by simp
    have n: "concat (map ?d (d # cs)) \<noteq> []" by auto
    show ?case
    proof (cases "is_space c")
      case True
      with 3 have c: "c = SP" "\<not> is_space d" by auto
      have "single_spaced (SP # concat (map ?d (d # cs)))"
        using r n h [OF c(2), of cs] by (simp only: single_spaced_Cons) simp
      then show ?thesis using c by simp
    next
      case False
      have "single_spaced (?d c @ concat (map ?d (d # cs)))"
        using r False b by (auto simp: single_spaced_Cons)
      then show ?thesis by simp
    qed
  qed
  moreover have "case concat (map ?d s) of [] \<Rightarrow> True | c # _ \<Rightarrow> \<not> is_space c"
    using assms b by (cases s) (auto simp: ws_normal_def)
  ultimately show ?thesis using assms by (simp add: ws_normal_def)
qed

lemma unescaped_no_hex:
  "followed_safely s \<Longrightarrow>
   no_hex (concat (map (\<lambda>c. if c = BSL then [BSL, BSL] else if c = LBR \<or> c = RBR then [BSL] else [c]) s))"
  by (induction s rule: followed_safely.induct) auto

lemma rtfToText_string_general:
  assumes "ws_normal s" "followed_safely s"
  shows "rtfToText_string (textToRtf_default s) =
         concat (map (\<lambda>c. if c = BSL then [BSL, BSL] else if c = LBR \<or> c = RBR then [BSL] else [c]) s)"
proof -
  let ?E = "concat (map (\<lambda>c. if is_escaped c then [BSL, c] else [c]) s) @ [RBR]"
  let ?R = "concat (map (\<lambda>c. if c = BSL then [BSL, BSL] else if c = LBR \<or> c = RBR then [BSL] else [c]) s)"
  note E = escaped_no_control [OF assms(2)]
  note R = unescaped_ws_normal [OF assms(1)]
  have t1: "strip_header (textToRtf_default s)
              = [RBR, BSL, 102, 48, BSL, 102, 115, 57, 54, SP] @ ?E"
    by (simp add: textToRtf_escaped ws_normal_no_LF assms strip_header_def of_ascii_def)
  have t2: "replaceAll (m_word kw r) ([RBR, BSL, 102, 48, BSL, 102, 115, 57, 54, SP] @ ?E)
              = [RBR, BSL, 102, 48, BSL, 102, 115, 57, 54, SP] @ ?E"
    if "kw = of_ascii ''par'' \<or> kw = of_ascii ''line''" for kw r
  proof -
    have "kw \<noteq> []" "is_alpha (hd kw)" using that by (auto simp: of_ascii_def is_alpha_def)
    from no_control_word [OF this E, of r] show ?thesis
      using that by (auto simp: matcher_simps of_ascii_def)
  qed
  have t4: "replaceAll (m_group kw) ([RBR, BSL, 102, 48, BSL, 102, 115, 57, 54, SP] @ ?E)
              = [RBR, BSL, 102, 48, BSL, 102, 115, 57, 54, SP] @ ?E"
    if "kw \<noteq> []" "is_alpha (hd kw)" for kw
    using no_control_group [OF that E] by (simp add: matcher_simps)
  have t7: "replaceAll m_control ([RBR, BSL, 102, 48, BSL, 102, 115, 57, 54, SP] @ ?E)
              = [RBR] @ ?E"
    using no_control_control [OF E]
    by (simp add: matcher_simps is_alpha_def is_digit_def is_space_def)
  have t8: "replaceAll (m_class (\<lambda>c. c = LBR \<or> c = RBR) []) ([RBR] @ ?E) = ?R"
    by (rule braces_removed)
  have t9: "replaceAll (m_spaces [SP]) ?R = ?R"
    using R by (simp add: collapse_single_spaced ws_normal_def)
  have kws: "of_ascii ''par'' = of_ascii ''par'' \<or> of_ascii ''par'' = of_ascii ''line''"
    "of_ascii ''line'' = of_ascii ''par'' \<or> of_ascii ''line'' = of_ascii ''line''"
    by simp_all
  have g: "of_ascii ''fonttbl'' \<noteq> []" "is_alpha (hd (of_ascii ''fonttbl''))"
    "of_ascii ''colortbl'' \<noteq> []" "is_alpha (hd (of_ascii ''colortbl''))"
    "of_ascii ''stylesheet'' \<noteq> []" "is_alpha (hd (of_ascii ''stylesheet''))"
    by (simp_all add: of_ascii_def is_alpha_def)
  show ?thesis
    unfolding rtfToText_string_def Let_def
    by (simp only: t1 t2 [OF kws(1)] t2 [OF kws(2)] t4 [OF g(1,2)] t4 [OF g(3,4)] t4 [OF g(5,6)]
        t7 t8 t9 trim_ws_normal [OF R] no_hex_hex [OF unescaped_no_hex [OF assms(2)]])
qed

lemma no_markup_followed_safely: "no_markup s \<Longrightarrow> followed_safely s"
  by (induction s rule: followed_safely.induct) (auto simp: no_markup_def)

lemma no_markup_unescaped:
  "no_markup s \<Longrightarrow>
   concat (map (\<lambda>c. if c = BSL then [BSL, BSL] else if c = LBR \<or> c = RBR then [BSL] else [c]) s) = s"
  by (induction s) (auto simp: no_markup_def)

lemma rtfToText_string_plain:
  "no_markup s \<Longrightarrow> ws_normal s \<Longrightarrow> rtfToText_string (textToRtf_default s) = s"
  by (simp add: rtfToText_string_general no_markup_followed_safely no_markup_unescaped)

section \<open>The decoder never lengthens its input\<close>











section \<open>The decoder adds no characters but newlines and spaces\<close>










section \<open>The shape of a decoded text\<close>






section \<open>Decoding the examples\<close>

lemma example_rtf_decoded: "rtfToText_string example_rtf = of_ascii ''Hi there''"
  unfolding rtfToText_string_def Let_def example_rtf_def
  by (simp add: rtf_eval)

lemma two_spaces_decoded:
  "rtfToText_string (textToRtf_default (of_ascii ''a  b'')) = of_ascii ''a b''"
  unfolding rtfToText_string_def Let_def textToRtf_default_def textToRtf_def
  by (simp add: rtf_eval show_nat_96)

lemma plain_decoded: "rtfToText_string (of_ascii ''A'') = of_ascii ''A''"
  "rtfToText_string (of_ascii ''B'') = of_ascii ''B''"
  "rtfToText_string (of_ascii ''Hi'') = of_ascii ''Hi''"
  unfolding rtfToText_string_def Let_def
  by (simp_all add: rtf_eval)


section \<open>Reading the text of a slide\<close>

lemma textElementsOf_rtf:
  "map rtfData (textElementsOf es) =
   map Some (List.map_filter (\<lambda>e. Option.bind (element e) (\<lambda>g. Option.bind (text_element g) rtfData)) es)"
proof (induction es)
  case Nil
  then show ?case by simp
next
  case (Cons e es)
  then show ?case
    by (auto simp: rtfTextOf_def split: option.splits)
qed

lemma decodeTexts_ok:
  "map rtfData tes = map Some bs \<Longrightarrow>
   decodeTexts dec tes = Inr (map (\<lambda>b. rtfToText dec (RtfBuffer b)) bs)"
  by (induction tes arbitrary: bs) auto

lemma getSlideText_eq:
  "getSlideText dec sl =
   Inr (join [LF] (filter (\<lambda>t. t \<noteq> []) (map (\<lambda>b. rtfToText dec (RtfBuffer b)) (rtfBuffers sl))))"
  unfolding getSlideText_def getSlideTextElements_def rtfBuffers_def
  by (simp add: decodeTexts_ok [OF textElementsOf_rtf])

lemma firstSlide_eq:
  "firstSlide as =
   (case List.map_filter (\<lambda>a. Option.bind (action_slide a) presentation) as of
      [] \<Rightarrow> None | sl # _ \<Rightarrow> Some sl)"
  by (induction as) (auto split: option.splits)

lemma getCueSlide_eq:
  "getCueSlide cue = (case presentationSlides cue of [] \<Rightarrow> None | sl # _ \<Rightarrow> Some sl)"
  by (simp add: getCueSlide_def presentationSlides_def firstSlide_eq)

section \<open>Replacing the text of a slide\<close>

lemma setFirstText_False: "setFirstText b es = (False, es') \<Longrightarrow> es' = es \<and> textElementsOf es = []"
  by (induction es arbitrary: es') (auto split: option.splits prod.splits)

lemma setFirstText_none: "textElementsOf es = [] \<Longrightarrow> setFirstText b es = (False, es)"
  by (induction es) (auto split: option.splits)

lemma setFirstText_True:
  "setFirstText b es = (True, es') \<Longrightarrow>
   \<exists>j<length es. rtfTextOf (es ! j) \<noteq> None \<and> (\<forall>k<j. rtfTextOf (es ! k) = None) \<and>
      es' = es[j := withRtfData (es ! j) b]"
proof (induction es arbitrary: es')
  case Nil
  then show ?case by simp
next
  case (Cons e es)
  show ?case
  proof (cases "rtfTextOf e")
    case None
    with Cons.prems obtain es0 where r: "setFirstText b es = (True, es0)" "es' = e # es0"
      by (auto split: prod.splits)
    from Cons.IH [OF r(1)] obtain j where j: "j < length es" "rtfTextOf (es ! j) \<noteq> None"
      "\<forall>k<j. rtfTextOf (es ! k) = None" "es0 = es[j := withRtfData (es ! j) b]" by blast
    have "\<forall>k<Suc j. rtfTextOf ((e # es) ! k) = None"
      using None j(3) by (auto simp: less_Suc_eq_0_disj)
    then show ?thesis using j r(2) by (intro exI [of _ "Suc j"]) simp
  next
    case (Some te)
    with Cons.prems show ?thesis by (intro exI [of _ 0]) auto
  qed
qed

lemma rtfTextOf_withRtfData:
  "rtfTextOf e = Some te \<Longrightarrow> rtfTextOf (withRtfData e b) = Some (te\<lparr>rtfData := Some b\<rparr>)"
  by (auto simp: rtfTextOf_def withRtfData_def split: option.splits)

lemma textElementsOf_set:
  "setFirstText b es = (True, es') \<Longrightarrow>
   \<exists>te tes. textElementsOf es = te # tes \<and> textElementsOf es' = te\<lparr>rtfData := Some b\<rparr> # tes"
  by (induction es arbitrary: es')
     (auto simp: rtfTextOf_withRtfData split: option.splits prod.splits)

lemma firstSlide_put_same: "firstSlide as = Some sl \<Longrightarrow> putFirstSlide sl as = as"
  by (induction as) (auto split: option.splits)

lemma firstSlide_put: "firstSlide as = Some sl \<Longrightarrow> firstSlide (putFirstSlide sl' as) = Some sl'"
  by (induction as) (auto split: option.splits)

lemma firstSlide_index:
  "firstSlide as = Some sl \<Longrightarrow>
   \<exists>i<length as. \<exists>sa. action_slide (as ! i) = Some sa \<and> presentation sa = Some sl \<and>
     (\<forall>k<i. Option.bind (action_slide (as ! k)) presentation = None) \<and>
     putFirstSlide sl' as = as[i := (as ! i)\<lparr>action_slide := Some (sa\<lparr>presentation := Some sl'\<rparr>)\<rparr>]"
proof (induction as)
  case Nil
  then show ?case by simp
next
  case (Cons a as)
  show ?case
  proof (cases "Option.bind (action_slide a) presentation")
    case None
    then have f: "firstSlide as = Some sl" and p: "putFirstSlide sl' (a # as) = a # putFirstSlide sl' as"
      using Cons.prems by (auto split: option.splits simp: bind_eq_None_conv)
    from Cons.IH [OF f] obtain i sa where i: "i < length as" "action_slide (as ! i) = Some sa"
      "presentation sa = Some sl" "\<forall>k<i. Option.bind (action_slide (as ! k)) presentation = None"
      "putFirstSlide sl' as = as[i := (as ! i)\<lparr>action_slide := Some (sa\<lparr>presentation := Some sl'\<rparr>)\<rparr>]"
      by blast
    have "\<forall>k<Suc i. Option.bind (action_slide ((a # as) ! k)) presentation = None"
      using None i(4) by (auto simp: less_Suc_eq_0_disj)
    then show ?thesis using i p by (intro exI [of _ "Suc i"]) auto
  next
    case (Some s0)
    then obtain sa where "action_slide a = Some sa" "presentation sa = Some sl"
      using Cons.prems by (auto split: option.splits simp: bind_eq_Some_conv)
    then show ?thesis by (intro exI [of _ 0]) auto
  qed
qed

lemma setCueText_False:
  assumes "setCueText enc cue t = (False, cue')"
  shows "cue' = cue"
proof (cases "getCueSlide cue")
  case None
  with assms show ?thesis by (simp add: setCueText_def)
next
  case (Some sl)
  have "setSlideText enc sl t = (False, sl')  \<Longrightarrow> sl' = sl" for sl'
    by (auto simp: setSlideText_def split: option.splits prod.splits dest: setFirstText_False)
  with assms Some have "cue' = putCueSlide cue sl"
    by (auto simp: setCueText_def split: prod.splits)
  moreover have "putCueSlide cue sl = cue"
    using Some by (cases "actions cue") (auto simp: putCueSlide_def getCueSlide_def or_empty_def firstSlide_put_same)
  ultimately show ?thesis by simp
qed

lemma setCueText_no_text:
  assumes "case presentationSlides cue of [] \<Rightarrow> True | sl # _ \<Rightarrow> rtfBuffers sl = []"
  shows "fst (setCueText enc cue t) = False"
proof (cases "getCueSlide cue")
  case None
  then show ?thesis by (simp add: setCueText_def)
next
  case (Some sl)
  then have "rtfBuffers sl = []" using assms by (auto simp: getCueSlide_eq split: list.splits)
  then have "map rtfData (textElementsOf (or_empty (elements sl))) = []"
    by (simp add: textElementsOf_rtf rtfBuffers_def)
  then have "textElementsOf (or_empty (elements sl)) = []" by simp
  then have "fst (setSlideText enc sl t) = False"
    by (auto simp: setSlideText_def or_empty_def setFirstText_none split: option.splits)
  then show ?thesis using Some by (auto simp: setCueText_def split: prod.splits)
qed

lemma setCueText_True:
  assumes ok: "setCueText enc cue t = (True, cue')"
  obtains as sl es es' where
    "actions cue = Some as" "firstSlide as = Some sl" "elements sl = Some es"
    "setFirstText (enc (textToRtf_default t)) es = (True, es')"
    "cue' = cue\<lparr>actions := Some (putFirstSlide (sl\<lparr>elements := Some es'\<rparr>) as)\<rparr>"
proof -
  from ok obtain sl where sl: "getCueSlide cue = Some sl"
    by (cases "getCueSlide cue") (auto simp: setCueText_def)
  then obtain as where as: "actions cue = Some as" "firstSlide as = Some sl"
    by (cases "actions cue") (auto simp: getCueSlide_def or_empty_def)
  from ok sl obtain sl' where sl': "setSlideText enc sl t = (True, sl')" "cue' = putCueSlide cue sl'"
    by (auto simp: setCueText_def split: prod.splits)
  then obtain es es' where es: "elements sl = Some es"
    "setFirstText (enc (textToRtf_default t)) es = (True, es')" "sl' = sl\<lparr>elements := Some es'\<rparr>"
    by (auto simp: setSlideText_def split: option.splits prod.splits)
  show thesis
    using that [OF as es(1,2)] sl'(2) es(3) as(1) by (simp add: putCueSlide_def)
qed

section \<open>Grouping cues\<close>

lemma map_set_keys:
  "map fst (map_set k v r) = (if k \<in> set (map fst r) then map fst r else map fst r @ [k])"
  by (induction r) force+

lemma map_of_map_set: "map_of (map_set k v r) = (map_of r)(k \<mapsto> v)"
  by (induction r) auto

lemma remdups_snoc: "remdups (xs @ [n]) = filter (\<lambda>x. x \<noteq> n) (remdups xs) @ [n]"
  by (induction xs) auto

lemma first_occurrences_Cons:
  "rev (remdups (rev (n # ns))) = n # rev (remdups (rev (filter (\<lambda>y. y \<noteq> n) ns)))"
  by (simp add: remdups_snoc remdups_filter rev_filter)

lemma groupCues_keys:
  "map fst (groupCues m gs r) =
   map fst r @ rev (remdups (rev (filter (\<lambda>n. n \<notin> set (map fst r)) (map groupName gs))))"
proof (induction gs arbitrary: r)
  case Nil
  then show ?case by simp
next
  case (Cons g gs)
  let ?r' = "map_set (groupName g) (resolveCues m (or_empty (cueIdentifiers g))) r"
  show ?case
  proof (cases "groupName g \<in> set (map fst r)")
    case True
    then have "map fst ?r' = map fst r" by (simp add: map_set_keys)
    then show ?thesis using True Cons.IH [of ?r'] by simp
  next
    case False
    then have k: "map fst ?r' = map fst r @ [groupName g]" by (simp add: map_set_keys)
    have "filter (\<lambda>n. n \<notin> set (map fst ?r')) (map groupName gs)
          = filter (\<lambda>y. y \<noteq> groupName g) (filter (\<lambda>n. n \<notin> set (map fst r)) (map groupName gs))"
      unfolding k by (auto intro: filter_cong)
    then have "map fst (groupCues m gs ?r') =
        map fst r @ groupName g # rev (remdups (rev (filter (\<lambda>y. y \<noteq> groupName g)
           (filter (\<lambda>n. n \<notin> set (map fst r)) (map groupName gs)))))"
      using Cons.IH [of ?r'] k by simp
    also have "groupName g # rev (remdups (rev (filter (\<lambda>y. y \<noteq> groupName g)
           (filter (\<lambda>n. n \<notin> set (map fst r)) (map groupName gs)))))
        = rev (remdups (rev (groupName g # filter (\<lambda>n. n \<notin> set (map fst r)) (map groupName gs))))"
      by (rule first_occurrences_Cons [symmetric])
    also have "groupName g # filter (\<lambda>n. n \<notin> set (map fst r)) (map groupName gs)
        = filter (\<lambda>n. n \<notin> set (map fst r)) (map groupName (g # gs))"
      using False by simp
    finally show ?thesis by simp
  qed
qed

lemma groupCues_values:
  "map_of (groupCues m gs r) n =
   (case filter (\<lambda>g. groupName g = n) gs of
      [] \<Rightarrow> map_of r n
    | fs \<Rightarrow> Some (resolveCues m (or_empty (cueIdentifiers (last fs)))))"
proof (induction gs arbitrary: r)
  case Nil
  then show ?case by simp
next
  case (Cons g gs)
  show ?case
    by (simp add: Cons.IH map_of_map_set split: list.splits)
qed

lemma resolveCues_append: "resolveCues m (xs @ ys) = resolveCues m xs @ resolveCues m ys"
  by (induction xs) (auto split: option.splits)

lemma groupCues_append: "groupCues m (gs1 @ gs2) r = groupCues m gs2 (groupCues m gs1 r)"
  by (induction gs1 arbitrary: r) auto

lemma buildCueMap_None:
  "m i = None \<Longrightarrow> \<forall>cue\<in>set cs. cue_uuid cue \<noteq> Some i \<Longrightarrow> buildCueMap cs m i = None"
  by (induction cs arbitrary: m) (auto split: option.splits)

lemma buildCueMap_Some:
  "(m i \<noteq> None \<or> (\<exists>cue\<in>set cs. cue_uuid cue = Some i)) \<Longrightarrow> i \<noteq> [] \<Longrightarrow>
   buildCueMap cs m i \<noteq> None"
  by (induction cs arbitrary: m) (auto split: option.splits)

lemma getCuesByGroup_dangling:
  assumes "\<forall>cue\<in>set (or_empty (cues p)). cue_uuid cue \<noteq> Some i"
  shows "getCuesByGroup (p\<lparr>cueGroups := Some (gs1 @ g\<lparr>cueIdentifiers := Some (ids1 @ i # ids2)\<rparr> # gs2)\<rparr>)
       = getCuesByGroup (p\<lparr>cueGroups := Some (gs1 @ g\<lparr>cueIdentifiers := Some (ids1 @ ids2)\<rparr> # gs2)\<rparr>)"
proof -
  have "buildCueMap (or_empty (cues p)) Map.empty i = None"
    using assms by (simp add: buildCueMap_None)
  then show ?thesis
    by (simp add: getCuesByGroup_def or_empty_def groupCues_append resolveCues_append groupName_def)
qed

section \<open>Created presentations\<close>

lemma fill_template_length: "fill_template rnd k tpl = (u, k') \<Longrightarrow> length u = length tpl"
proof (induction tpl arbitrary: k u k')
  case Nil
  then show ?case by simp
next
  case (Cons c cs)
  then show ?case by (fastforce simp: Let_def split: prod.splits if_splits)
qed

lemma generateUuid_length: "generateUuid rnd k = (u, k') \<Longrightarrow> length u = 36"
  by (auto simp: generateUuid_def dest: fill_template_length)

lemma createCue_uuid:
  "createCue enc rnd k name txt options chs = (cue, k') \<Longrightarrow>
   \<exists>u. cue_uuid cue = Some u \<and> length u = 36"
  by (auto simp: createCue_def split: prod.splits dest: generateUuid_length)

lemma createCues_result:
  "createCues enc rnd k options sname idx inputs = (cs, ids, k') \<Longrightarrow>
   length cs = length inputs \<and> map cue_uuid cs = map Some ids \<and> (\<forall>i\<in>set ids. length i = 36)"
proof (induction inputs arbitrary: k idx cs ids k')
  case Nil
  then show ?case by simp
next
  case (Cons x xs)
  from Cons.prems obtain cue k1 cs0 ids0 where
    c: "createCue enc rnd k (sname @ of_ascii '' - Slide '' @ show_nat (idx + 1))
          (case x of SlideString s \<Rightarrow> s | SlideObject i \<Rightarrow> input_text i) options
          (case x of SlideString s \<Rightarrow> None | SlideObject i \<Rightarrow> chords i) = (cue, k1)"
    and r: "createCues enc rnd k1 options sname (idx + 1) xs = (cs0, ids0, k')"
    and e: "cs = cue # cs0" "ids = (case cue_uuid cue of None \<Rightarrow> [] | Some u \<Rightarrow> [u]) @ ids0"
    by (auto simp: Let_def split: prod.splits)
  from createCue_uuid [OF c] obtain u where u: "cue_uuid cue = Some u" "length u = 36" by blast
  show ?case using Cons.IH [OF r] e u by simp
qed

lemma createSections_result:
  "createSections enc rnd k options idx secs = (cs, gs, gids, k') \<Longrightarrow>
   map (\<lambda>g. length (or_empty (cueIdentifiers g))) gs = map (\<lambda>s. length (slides s)) secs \<and>
   map cue_uuid cs = map Some (concat (map (\<lambda>g. or_empty (cueIdentifiers g)) gs)) \<and>
   (\<forall>g\<in>set gs. \<forall>i\<in>set (or_empty (cueIdentifiers g)). length i = 36)"
proof (induction secs arbitrary: k idx cs gs gids k')
  case Nil
  then show ?case by simp
next
  case (Cons s secs)
  from Cons.prems obtain gu k1 cs0 ids k2 cs1 gs1 gids1 g where
    c: "createCues enc rnd k1 options (section_name s) 0 (slides s) = (cs0, ids, k2)"
    and r: "createSections enc rnd k2 options (idx + 1) secs = (cs1, gs1, gids1, k')"
    and e: "cs = cs0 @ cs1" "gs = g # gs1" "cueIdentifiers g = Some ids"
    by (auto simp: Let_def split: prod.splits)
  from createCues_result [OF c] have "length (map cue_uuid cs0) = length (map Some ids)"
    by simp
  then have "length cs0 = length ids" by (simp only: length_map)
  then have "length ids = length (slides s)" using createCues_result [OF c] by simp
  then show ?case
    using createCues_result [OF c] Cons.IH [OF r] e by (auto simp: or_empty_def)
qed

section \<open>The claims\<close>

text \<open>
  \<open>readPresentation\<close> and \<open>writePresentation\<close> (C1) hand the bytes to the protobufjs
  library and a schema read from \<open>.proto\<close> files. Neither is part of the program, and
  nothing is stated about them here.
\<close>

text \<open>
  C2, as the program has it. \<open>getCueText\<close> takes the first action of the cue that has
  a presentation slide and looks at no later action. Its result is the rich-text decodes
  of all the elements of that slide that have \<open>rtfData\<close>, in order, the empty decodes
  left out, joined by newlines; it is the empty string when no action has a presentation
  slide. It never raises the \<open>TypeError\<close>.
\<close>

theorem getCueText_combined:
  "getCueText dec cue =
   Inr (case presentationSlides cue of
          [] \<Rightarrow> []
        | sl # _ \<Rightarrow>
            join [LF] (filter (\<lambda>t. t \<noteq> [])
              (map (\<lambda>b. rtfToText dec (RtfBuffer b)) (rtfBuffers sl))))"
  by (simp add: getCueText_def getCueSlide_eq getSlideText_eq split: list.splits)

text \<open>An instance: a slide with a shape and one text.\<close>

theorem getCueText_combined_witness:
  "getCueText ascii_decode (slide_cue (of_ascii ''c1'') [shape, text_box (of_ascii ''Hi'')])
     = Inr (of_ascii ''Hi'')"
  using getCueText_combined [of ascii_decode "slide_cue (of_ascii ''c1'') [shape, text_box (of_ascii ''Hi'')]"]
  by (simp add: presentationSlides_def rtfBuffers_def or_empty_def rtfToText_def example_defs
      plain_decoded)

text \<open>
  C2 as stated fails: on a slide with the two texts \<open>A\<close> and \<open>B\<close> the result is both,
  joined by a newline, not the decode of the first text-bearing element alone.
\<close>

theorem getCueText_first_element_counterexample:
  "getCueText ascii_decode (slide_cue (of_ascii ''c1'') [text_box (of_ascii ''A''), text_box (of_ascii ''B'')])
     = Inr (of_ascii ''A'' @ [LF] @ of_ascii ''B'') \<and>
   getCueText ascii_decode (slide_cue (of_ascii ''c1'') [text_box (of_ascii ''A''), text_box (of_ascii ''B'')])
     \<noteq> Inr (rtfToText ascii_decode (RtfBuffer (ascii_encode (of_ascii ''A''))))"
  by (simp add: getCueText_def getCueSlide_def or_empty_def getSlideText_def getSlideTextElements_def
      rtfTextOf_def rtfToText_def example_defs plain_decoded) (simp add: of_ascii_def)

text \<open>
  C3, as the program has it. The result of \<open>getCuesByGroup\<close> has one entry per
  distinct group name, in the order in which the names first occur in the document. The
  entry of a name holds the cues resolved for the last group of that name.
\<close>

theorem getCuesByGroup_by_name:
  "map fst (getCuesByGroup p) = rev (remdups (rev (map groupName (or_empty (cueGroups p))))) \<and>
   (\<forall>n \<in> set (map groupName (or_empty (cueGroups p))).
      map_of (getCuesByGroup p) n =
        Some (resolveCues (buildCueMap (or_empty (cues p)) Map.empty)
               (or_empty (cueIdentifiers
                  (last (filter (\<lambda>g. groupName g = n) (or_empty (cueGroups p))))))))"
proof -
  have "filter (\<lambda>g. groupName g = n) gs \<noteq> []" if "n \<in> set (map groupName gs)"
    for n and gs :: "'a CueGroup list"
    using that by (auto simp: filter_empty_conv)
  then show ?thesis
    unfolding getCuesByGroup_def
    by (auto simp: groupCues_keys groupCues_values split: list.splits)
qed

text \<open>An instance: three groups, the first and the last of the same name.\<close>

theorem getCuesByGroup_by_name_witness:
  "map fst (getCuesByGroup (document
      [named_group (of_ascii ''V'') [of_ascii ''c1'', of_ascii ''c2''],
       named_group (of_ascii ''C'') [of_ascii ''c2''],
       named_group (of_ascii ''V'') [of_ascii ''c1'']]
      [slide_cue (of_ascii ''c1'') [], slide_cue (of_ascii ''c2'') []]))
     = [of_ascii ''V'', of_ascii ''C''] \<and>
   map_of (getCuesByGroup (document
      [named_group (of_ascii ''V'') [of_ascii ''c1'', of_ascii ''c2''],
       named_group (of_ascii ''C'') [of_ascii ''c2''],
       named_group (of_ascii ''V'') [of_ascii ''c1'']]
      [slide_cue (of_ascii ''c1'') [], slide_cue (of_ascii ''c2'') []])) (of_ascii ''V'')
     = Some [slide_cue (of_ascii ''c1'') []]"
  using getCuesByGroup_by_name [of "document
      [named_group (of_ascii ''V'') [of_ascii ''c1'', of_ascii ''c2''],
       named_group (of_ascii ''C'') [of_ascii ''c2''],
       named_group (of_ascii ''V'') [of_ascii ''c1'']]
      [slide_cue (of_ascii ''c1'') [], slide_cue (of_ascii ''c2'') []]"]
  by (simp add: or_empty_def groupName_def example_defs of_ascii_def)

text \<open>
  C3 as stated fails: two groups of the same name give one entry, which holds the cues of
  the second group.
\<close>

theorem getCuesByGroup_same_name_counterexample:
  "length (or_empty (cueGroups (document
      [named_group (of_ascii ''A'') [of_ascii ''c1''], named_group (of_ascii ''A'') [of_ascii ''c2'']]
      [slide_cue (of_ascii ''c1'') [], slide_cue (of_ascii ''c2'') []]))) = 2 \<and>
   getCuesByGroup (document
      [named_group (of_ascii ''A'') [of_ascii ''c1''], named_group (of_ascii ''A'') [of_ascii ''c2'']]
      [slide_cue (of_ascii ''c1'') [], slide_cue (of_ascii ''c2'') []])
     = [(of_ascii ''A'', [slide_cue (of_ascii ''c2'') []])]"
  by (simp add: getCuesByGroup_def or_empty_def groupName_def example_defs of_ascii_def)

text \<open>
  C4, as the program has it. When \<open>setCueText\<close> returns success, the cue afterwards is
  the cue before with one change: in the slide \<open>getCueSlide\<close> finds, at action \<open>i\<close>,
  the first element that has \<open>rtfData\<close>, at index \<open>j\<close>, has the encoded new text as
  its \<open>rtfData\<close>. The numbers and the order of actions and elements and every other
  attribute are as before. \<open>getCueText\<close> afterwards gives the new text when that text
  has no backslash and no brace, its white space is single spaces between other
  characters, its rich text survives the UTF-8 encoding and decoding, and the slide has
  one element with \<open>rtfData\<close>.
\<close>

theorem setCueText_frame_and_text:
  assumes ok: "setCueText enc cue t = (True, cue')"
  shows "(\<exists>as i sa sl es j.
            actions cue = Some as \<and> i < length as \<and> action_slide (as ! i) = Some sa \<and>
            presentation sa = Some sl \<and> getCueSlide cue = Some sl \<and> elements sl = Some es \<and>
            j < length es \<and> rtfTextOf (es ! j) \<noteq> None \<and> (\<forall>k<j. rtfTextOf (es ! k) = None) \<and>
            cue' = cue\<lparr>actions := Some (as[i := (as ! i)\<lparr>action_slide := Some (sa\<lparr>presentation :=
                     Some (sl\<lparr>elements := Some (es[j := withRtfData (es ! j)
                       (enc (textToRtf_default t))])\<rparr>)\<rparr>)\<rparr>])\<rparr>) \<and>
         (no_markup t \<and> ws_normal t \<and> dec (enc (textToRtf_default t)) = textToRtf_default t \<and>
          (\<forall>sl. getCueSlide cue = Some sl \<longrightarrow> length (rtfBuffers sl) = 1)
          \<longrightarrow> getCueText dec cue' = Inr t)"
proof (intro conjI impI)
  from ok obtain as sl es es' where h: "actions cue = Some as" "firstSlide as = Some sl"
    "elements sl = Some es" "setFirstText (enc (textToRtf_default t)) es = (True, es')"
    "cue' = cue\<lparr>actions := Some (putFirstSlide (sl\<lparr>elements := Some es'\<rparr>) as)\<rparr>"
    by (rule setCueText_True)
  let ?b = "enc (textToRtf_default t)"
  let ?sl' = "sl\<lparr>elements := Some es'\<rparr>"
  have g: "getCueSlide cue = Some sl" using h(1,2) by (simp add: getCueSlide_def or_empty_def)
  {
    from firstSlide_index [OF h(2), of ?sl'] obtain i sa where i: "i < length as"
      "action_slide (as ! i) = Some sa" "presentation sa = Some sl"
      "putFirstSlide ?sl' as = as[i := (as ! i)\<lparr>action_slide := Some (sa\<lparr>presentation := Some ?sl'\<rparr>)\<rparr>]"
      by blast
    from setFirstText_True [OF h(4)] obtain j where j: "j < length es" "rtfTextOf (es ! j) \<noteq> None"
      "\<forall>k<j. rtfTextOf (es ! k) = None" "es' = es[j := withRtfData (es ! j) ?b]"
      by blast
    show "\<exists>as i sa sl es j.
            actions cue = Some as \<and> i < length as \<and> action_slide (as ! i) = Some sa \<and>
            presentation sa = Some sl \<and> getCueSlide cue = Some sl \<and> elements sl = Some es \<and>
            j < length es \<and> rtfTextOf (es ! j) \<noteq> None \<and> (\<forall>k<j. rtfTextOf (es ! k) = None) \<and>
            cue' = cue\<lparr>actions := Some (as[i := (as ! i)\<lparr>action_slide := Some (sa\<lparr>presentation :=
                     Some (sl\<lparr>elements := Some (es[j := withRtfData (es ! j)
                       (enc (textToRtf_default t))])\<rparr>)\<rparr>)\<rparr>])\<rparr>"
      apply (rule exI [of _ as], rule exI [of _ i], rule exI [of _ sa], rule exI [of _ sl],
             rule exI [of _ es], rule exI [of _ j])
      using h(1,3,5) i j g by simp
  }
  assume a: "no_markup t \<and> ws_normal t \<and> dec ?b = textToRtf_default t \<and>
             (\<forall>sl. getCueSlide cue = Some sl \<longrightarrow> length (rtfBuffers sl) = 1)"
  from textElementsOf_set [OF h(4)] obtain te tes where te:
    "textElementsOf es = te # tes" "textElementsOf es' = te\<lparr>rtfData := Some ?b\<rparr> # tes" by blast
  have "length (rtfBuffers sl) = 1" using a g by simp
  then have "length (map rtfData (textElementsOf es)) = 1"
    using h(3) by (simp add: textElementsOf_rtf rtfBuffers_def or_empty_def)
  then have "tes = []" using te(1) by simp
  then have "map rtfData (textElementsOf es') = map Some [?b]" using te(2) by simp
  then have "map Some (rtfBuffers ?sl') = map Some [?b]"
    by (simp add: textElementsOf_rtf rtfBuffers_def or_empty_def)
  then have b: "rtfBuffers ?sl' = [?b]" by (cases "rtfBuffers ?sl'") auto
  have "getCueSlide cue' = Some ?sl'"
    using h(2,5) by (simp add: getCueSlide_def or_empty_def firstSlide_put)
  then have "getCueText dec cue' = getSlideText dec ?sl'" by (simp add: getCueText_def)
  also have "\<dots> = Inr (join [LF] (filter (\<lambda>t. t \<noteq> []) [rtfToText_string (textToRtf_default t)]))"
    using a by (simp add: getSlideText_eq b rtfToText_def)
  also have "rtfToText_string (textToRtf_default t) = t"
    using a by (simp add: rtfToText_string_plain)
  finally show "getCueText dec cue' = Inr t" by simp
qed

text \<open>An instance: a slide with a shape and a text, set to \<open>Changed\<close>.\<close>

theorem setCueText_frame_and_text_witness:
  "fst (setCueText ascii_encode (slide_cue (of_ascii ''c1'') [shape, text_box (of_ascii ''old'')])
         (of_ascii ''Changed'')) = True \<and>
   no_markup (of_ascii ''Changed'') \<and> ws_normal (of_ascii ''Changed'') \<and>
   getCueText ascii_decode
     (snd (setCueText ascii_encode (slide_cue (of_ascii ''c1'') [shape, text_box (of_ascii ''old'')])
            (of_ascii ''Changed'')))
     = Inr (of_ascii ''Changed'')"
proof -
  let ?cue = "slide_cue (of_ascii ''c1'') [shape, text_box (of_ascii ''old'')]"
  let ?t = "of_ascii ''Changed''"
  have f: "fst (setCueText ascii_encode ?cue ?t) = True"
    by (simp add: setCueText_def setSlideText_def getCueSlide_def or_empty_def rtfTextOf_def
        example_defs)
  then have ok: "setCueText ascii_encode ?cue ?t = (True, snd (setCueText ascii_encode ?cue ?t))"
    by (metis prod.collapse)
  have 1: "no_markup ?t" by (simp add: no_markup_def of_ascii_def)
  have 2: "ws_normal ?t" by (simp add: ws_normal_def of_ascii_def is_space_def)
  have 3: "ascii_decode (ascii_encode (textToRtf_default ?t)) = textToRtf_default ?t"
    by (simp add: ascii_encode_def ascii_decode_def)
  have 4: "\<forall>sl. getCueSlide ?cue = Some sl \<longrightarrow> length (rtfBuffers sl) = 1"
    by (simp add: getCueSlide_def or_empty_def rtfBuffers_def example_defs)
  from setCueText_frame_and_text [OF ok, of ascii_decode] 1 2 3 4
  have "getCueText ascii_decode (snd (setCueText ascii_encode ?cue ?t)) = Inr ?t" by blast
  then show ?thesis using f 1 2 by blast
qed

text \<open>
  C4 as stated fails: after a successful \<open>setCueText\<close> with a text of two words and
  two spaces between them, \<open>getCueText\<close> gives the words with one space.
\<close>

theorem setCueText_reads_back_counterexample:
  "fst (setCueText ascii_encode (slide_cue (of_ascii ''c1'') [text_box (of_ascii ''old'')])
         (of_ascii ''a  b'')) = True \<and>
   getCueText ascii_decode
     (snd (setCueText ascii_encode (slide_cue (of_ascii ''c1'') [text_box (of_ascii ''old'')])
            (of_ascii ''a  b'')))
     = Inr (of_ascii ''a b'') \<and>
   of_ascii ''a b'' \<noteq> of_ascii ''a  b''"
  by (simp add: setCueText_def setSlideText_def putCueSlide_def withRtfData_def
      getCueText_def getCueSlide_def or_empty_def getSlideText_def getSlideTextElements_def
      rtfTextOf_def rtfToText_def example_defs two_spaces_decoded) (simp add: of_ascii_def)

text \<open>
  C5, as the program has it. A text without backslash and braces whose white space is
  single spaces between other characters is recovered by decoding its encoding.
\<close>

theorem rtfToText_textToRtf_plain:
  "no_markup s \<Longrightarrow> ws_normal s \<Longrightarrow> rtfToText dec (RtfString (textToRtf_default s)) = s"
  by (simp add: rtfToText_def rtfToText_string_plain)

text \<open>An instance: \<open>Line one\<close>.\<close>

theorem rtfToText_textToRtf_plain_witness:
  "no_markup (of_ascii ''Line one'') \<and> ws_normal (of_ascii ''Line one'') \<and>
   rtfToText ascii_decode (RtfString (textToRtf_default (of_ascii ''Line one''))) = of_ascii ''Line one''"
proof -
  have 1: "no_markup (of_ascii ''Line one'')" by (simp add: no_markup_def of_ascii_def)
  have 2: "ws_normal (of_ascii ''Line one'')" by (simp add: ws_normal_def of_ascii_def is_space_def)
  show ?thesis using 1 2 rtfToText_textToRtf_plain [OF 1 2, of ascii_decode] by simp
qed

text \<open>
  C5 as stated fails: a text with two spaces in a row has no backslash, brace or carriage
  return, and comes back with one space.
\<close>

theorem plain_round_trip_counterexample:
  "rtfToText ascii_decode (RtfString (textToRtf_default (of_ascii ''a  b''))) = of_ascii ''a b'' \<and>
   rtfToText ascii_decode (RtfString (textToRtf_default (of_ascii ''a  b''))) \<noteq> of_ascii ''a  b''"
  by (simp add: rtfToText_def two_spaces_decoded) (simp add: of_ascii_def)

text \<open>
  C6, as the program has it. The decoder does not undo the escapes of the encoder: it
  removes braces and keeps backslashes. Take a text whose white space is single spaces
  between other characters, in which no backslash stands before a letter and no backslash
  or brace stands before an apostrophe. Decoding its encoding gives the text with every
  backslash doubled and every brace replaced by a backslash; the other characters are
  recovered.
\<close>

theorem rtfToText_textToRtf_escapes:
  "ws_normal s \<Longrightarrow> followed_safely s \<Longrightarrow>
   rtfToText dec (RtfString (textToRtf_default s)) =
   concat (map (\<lambda>c. if c = BSL then [BSL, BSL] else if c = LBR \<or> c = RBR then [BSL] else [c]) s)"
  by (simp add: rtfToText_def rtfToText_string_general)

text \<open>An instance: \<open>{x} y\<close> followed by a backslash.\<close>

theorem rtfToText_textToRtf_escapes_witness:
  "ws_normal (of_ascii ''{x} y'' @ [BSL]) \<and> followed_safely (of_ascii ''{x} y'' @ [BSL]) \<and>
   rtfToText ascii_decode (RtfString (textToRtf_default (of_ascii ''{x} y'' @ [BSL])))
     = BSL # of_ascii ''x'' @ BSL # of_ascii '' y'' @ [BSL, BSL]"
proof -
  have 1: "ws_normal (of_ascii ''{x} y'' @ [BSL])"
    by (simp add: ws_normal_def of_ascii_def is_space_def)
  have 2: "followed_safely (of_ascii ''{x} y'' @ [BSL])"
    by (simp add: of_ascii_def is_alpha_def)
  show ?thesis
    using 1 2 rtfToText_textToRtf_escapes [OF 1 2, of ascii_decode] by (simp add: of_ascii_def)
qed

text \<open>C6 as stated fails: an opening brace comes back as a backslash.\<close>

theorem escape_round_trip_counterexample:
  "rtfToText ascii_decode (RtfString (textToRtf_default [LBR])) = [BSL] \<and>
   rtfToText ascii_decode (RtfString (textToRtf_default [LBR])) \<noteq> [LBR]"
  unfolding rtfToText_def rtfToText_string_def Let_def textToRtf_default_def textToRtf_def
  by (simp add: rtf_eval show_nat_96)

text \<open>
  C7. The program decodes the rich text of the example to \<open>Hi there\<close>, with a space
  where the claim has a newline. The decoder does turn \<open>\par\<close> into a newline, but a
  newline is white space, and the later replacement of every run of white space by one
  space takes it away again, together with the space after it.
\<close>

theorem rtfToText_example_loses_newline:
  "rtfToText dec (RtfString example_rtf) = of_ascii ''Hi there'' \<and>
   rtfToText dec (RtfString example_rtf) \<noteq> of_ascii ''Hi'' @ [LF] @ of_ascii ''there''"
  by (simp add: rtfToText_def example_rtf_decoded) (simp add: of_ascii_def)

text \<open>
  C8, as the program has it. A cue none of whose presentation slides has an element with
  \<open>rtfData\<close>, of whatever length, makes \<open>setCueText\<close> return failure and the cue as
  it was; whenever \<open>setCueText\<close> returns failure the cue is as it was. An identifier
  that is the \<open>uuid\<close> of no cue of the document can be taken out of any place of any
  group's list without changing the result of \<open>getCuesByGroup\<close>: it adds nothing to
  its group's entry, and the groups after it are resolved as without it. Both functions
  return values; neither has an error result.
\<close>

theorem not_found_is_a_value:
  "((\<forall>sl\<in>set (presentationSlides cue). rtfBuffers sl = []) \<longrightarrow>
      setCueText enc cue t = (False, cue)) \<and>
   (fst (setCueText enc cue t) = False \<longrightarrow> snd (setCueText enc cue t) = cue) \<and>
   ((\<forall>c\<in>set (or_empty (cues p)). cue_uuid c \<noteq> Some i) \<longrightarrow>
      getCuesByGroup (p\<lparr>cueGroups := Some (gs1 @ g\<lparr>cueIdentifiers := Some (ids1 @ i # ids2)\<rparr> # gs2)\<rparr>)
    = getCuesByGroup (p\<lparr>cueGroups := Some (gs1 @ g\<lparr>cueIdentifiers := Some (ids1 @ ids2)\<rparr> # gs2)\<rparr>))"
proof (intro conjI impI)
  show u: "snd (setCueText enc cue t) = cue" if "fst (setCueText enc cue t) = False"
    using that setCueText_False [of enc cue t "snd (setCueText enc cue t)"]
    by (metis prod.collapse)
  assume "\<forall>sl\<in>set (presentationSlides cue). rtfBuffers sl = []"
  then have "case presentationSlides cue of [] \<Rightarrow> True | sl # _ \<Rightarrow> rtfBuffers sl = []"
    by (simp split: list.splits)
  then have "fst (setCueText enc cue t) = False" by (rule setCueText_no_text)
  then show "setCueText enc cue t = (False, cue)" using u by (metis prod.collapse)
next
  assume "\<forall>c\<in>set (or_empty (cues p)). cue_uuid c \<noteq> Some i"
  then show "getCuesByGroup (p\<lparr>cueGroups := Some (gs1 @ g\<lparr>cueIdentifiers := Some (ids1 @ i # ids2)\<rparr> # gs2)\<rparr>)
    = getCuesByGroup (p\<lparr>cueGroups := Some (gs1 @ g\<lparr>cueIdentifiers := Some (ids1 @ ids2)\<rparr> # gs2)\<rparr>)"
    by (rule getCuesByGroup_dangling)
qed

text \<open>
  An instance: a cue whose slide has only a shape, and a document with a group that names
  a cue that is not there.
\<close>

theorem not_found_is_a_value_witness:
  "setCueText ascii_encode (slide_cue (of_ascii ''c1'') [shape]) (of_ascii ''Hi'')
     = (False, slide_cue (of_ascii ''c1'') [shape]) \<and>
   getCuesByGroup (document
      [named_group (of_ascii ''V'') [of_ascii ''c1'', of_ascii ''gone''],
       named_group (of_ascii ''C'') [of_ascii ''c1'']]
      [slide_cue (of_ascii ''c1'') [shape]])
     = getCuesByGroup (document
      [named_group (of_ascii ''V'') [of_ascii ''c1''],
       named_group (of_ascii ''C'') [of_ascii ''c1'']]
      [slide_cue (of_ascii ''c1'') [shape]])"
proof -
  let ?cue = "slide_cue (of_ascii ''c1'') [shape]"
  let ?p = "document [] [?cue]"
  have 1: "\<forall>sl\<in>set (presentationSlides ?cue). rtfBuffers sl = []"
    by (simp add: presentationSlides_def rtfBuffers_def or_empty_def example_defs)
  have 2: "\<forall>c\<in>set (or_empty (cues ?p)). cue_uuid c \<noteq> Some (of_ascii ''gone'')"
    by (simp add: or_empty_def example_defs of_ascii_def)
  show ?thesis
    using not_found_is_a_value [where cue = ?cue and enc = ascii_encode and t = "of_ascii ''Hi''"
        and p = ?p and i = "of_ascii ''gone''" and ?gs1.0 = "[]"
        and g = "named_group (of_ascii ''V'') []" and ?ids1.0 = "[of_ascii ''c1'']"
        and ?ids2.0 = "[]" and ?gs2.0 = "[named_group (of_ascii ''C'') [of_ascii ''c1'']]"] 1 2
    by (simp add: document_def named_group_def)
qed

text \<open>
  C8 as stated fails where text-bearing means a rich text that is not empty: an element
  whose \<open>rtfData\<close> is an empty buffer passes the test of \<open>setSlideText\<close>, so the call
  succeeds and writes the text.
\<close>

theorem setCueText_empty_rtfData_counterexample:
  "concat (map rtfBuffers (presentationSlides (slide_cue (of_ascii ''c1'') [text_box []]))) = [Buffer []] \<and>
   fst (setCueText ascii_encode (slide_cue (of_ascii ''c1'') [text_box []]) (of_ascii ''Hi'')) = True \<and>
   snd (setCueText ascii_encode (slide_cue (of_ascii ''c1'') [text_box []]) (of_ascii ''Hi''))
     \<noteq> slide_cue (of_ascii ''c1'') [text_box []]"
  by (simp add: presentationSlides_def rtfBuffers_def setCueText_def setSlideText_def
      putCueSlide_def withRtfData_def getCueSlide_def or_empty_def rtfTextOf_def example_defs
      textToRtf_default_def textToRtf_def Let_def)



text \<open>
  C10. In the presentation \<open>createPresentation\<close> returns there are as many cues as
  the sections have slides, the group of each section has as many identifiers as the
  section has slides, and the identifiers of the groups, one group after the other, are
  the \<open>uuid\<close>s of the cues, in order. So every identifier of a group is the \<open>uuid\<close>
  of a cue of the presentation, and the lookup \<open>getCuesByGroup\<close> builds from the cues
  resolves it.
\<close>

theorem createPresentation_no_dangling:
  assumes "createPresentation enc rnd k options = (p, k')"
  shows "\<exists>cs gs. cues p = Some cs \<and> cueGroups p = Some gs \<and>
           length cs = sum_list (map (\<lambda>s. length (slides s)) (sections options)) \<and>
           map (\<lambda>g. length (or_empty (cueIdentifiers g))) gs
             = map (\<lambda>s. length (slides s)) (sections options) \<and>
           map cue_uuid cs = map Some (concat (map (\<lambda>g. or_empty (cueIdentifiers g)) gs)) \<and>
           (\<forall>g\<in>set gs. \<forall>i\<in>set (or_empty (cueIdentifiers g)).
              (\<exists>cue\<in>set cs. cue_uuid cue = Some i) \<and>
              buildCueMap cs Map.empty i \<noteq> None)"
proof -
  from assms obtain cs gs gids k1 where
    s: "createSections enc rnd k options 0 (sections options) = (cs, gs, gids, k1)"
    and p: "cues p = Some cs" "cueGroups p = Some gs"
    by (auto simp: createPresentation_def split: prod.splits if_splits)
  note r = createSections_result [OF s]
  have l: "length cs = sum_list (map (\<lambda>s. length (slides s)) (sections options))"
  proof -
    have "length cs = length (map cue_uuid cs)" by simp
    also have "\<dots> = length (concat (map (\<lambda>g. or_empty (cueIdentifiers g)) gs))"
      using r by simp
    also have "\<dots> = sum_list (map (\<lambda>g. length (or_empty (cueIdentifiers g))) gs)"
      by (simp add: length_concat comp_def)
    finally show ?thesis using r by simp
  qed
  have d: "(\<exists>cue\<in>set cs. cue_uuid cue = Some i) \<and> buildCueMap cs Map.empty i \<noteq> None"
    if "g \<in> set gs" "i \<in> set (or_empty (cueIdentifiers g))" for g i
  proof -
    have "Some i \<in> set (map Some (concat (map (\<lambda>g. or_empty (cueIdentifiers g)) gs)))"
      using that by auto
    then have "Some i \<in> set (map cue_uuid cs)" using r by simp
    then have 1: "\<exists>cue\<in>set cs. cue_uuid cue = Some i" by auto
    have "length i = 36" using r that by blast
    then have "i \<noteq> []" by auto
    with 1 show ?thesis using buildCueMap_Some [of Map.empty i cs] by simp
  qed
  show ?thesis using p l r d by blast
qed

text \<open>An instance: two sections, of two slides and of one.\<close>

theorem createPresentation_no_dangling_witness:
  "\<exists>cs gs. cues (fst (createPresentation ascii_encode (\<lambda>n. n) 0 options_example)) = Some cs \<and>
      cueGroups (fst (createPresentation ascii_encode (\<lambda>n. n) 0 options_example)) = Some gs \<and>
      length cs = 3 \<and>
      map (\<lambda>g. length (or_empty (cueIdentifiers g))) gs = [2, 1] \<and>
      map cue_uuid cs = map Some (concat (map (\<lambda>g. or_empty (cueIdentifiers g)) gs))"
proof -
  have "createPresentation ascii_encode (\<lambda>n. n) 0 options_example
        = (fst (createPresentation ascii_encode (\<lambda>n. n) 0 options_example),
           snd (createPresentation ascii_encode (\<lambda>n. n) 0 options_example))"
    by simp
  from createPresentation_no_dangling [OF this]
  show ?thesis by (auto simp: options_example_def)
qed

end
